theory Spec2Isabelle
  imports Complex_Main
begin

section \<open>JavaScript strings\<close>

text \<open>
  A JavaScript string is a sequence of UTF-16 code units. The embedding uses
  \<^typ>\<open>string\<close>, whose characters are the code units U+0000 to U+00FF (the Latin-1
  range): one \<^typ>\<open>char\<close> is one code unit, \<open>length\<close> is the \<open>.length\<close> of the
  source, and the white space and the case mapping below are the ones ECMAScript
  defines on that range.
\<close>

definition LF :: char where "LF = CHR 0x0A"
definition CR :: char where "CR = CHR 0x0D"

text \<open>White space and line terminators that \<open>String.prototype.trim\<close> removes.\<close>

definition isWhiteSpace :: "char \<Rightarrow> bool" where
  "isWhiteSpace c =
     (c \<in> set [CHR 0x09, CHR 0x0A, CHR 0x0B, CHR 0x0C, CHR 0x0D, CHR 0x20, CHR 0xA0])"

definition trim :: "string \<Rightarrow> string" where
  "trim s = rev (dropWhile isWhiteSpace (rev (dropWhile isWhiteSpace s)))"

definition upper_units :: string where
  "upper_units = ''ABCDEFGHIJKLMNOPQRSTUVWXYZ'' @
     [CHR 0xC0, CHR 0xC1, CHR 0xC2, CHR 0xC3, CHR 0xC4, CHR 0xC5, CHR 0xC6, CHR 0xC7,
      CHR 0xC8, CHR 0xC9, CHR 0xCA, CHR 0xCB, CHR 0xCC, CHR 0xCD, CHR 0xCE, CHR 0xCF,
      CHR 0xD0, CHR 0xD1, CHR 0xD2, CHR 0xD3, CHR 0xD4, CHR 0xD5, CHR 0xD6,
      CHR 0xD8, CHR 0xD9, CHR 0xDA, CHR 0xDB, CHR 0xDC, CHR 0xDD, CHR 0xDE]"

definition lower_units :: string where
  "lower_units = ''abcdefghijklmnopqrstuvwxyz'' @
     [CHR 0xE0, CHR 0xE1, CHR 0xE2, CHR 0xE3, CHR 0xE4, CHR 0xE5, CHR 0xE6, CHR 0xE7,
      CHR 0xE8, CHR 0xE9, CHR 0xEA, CHR 0xEB, CHR 0xEC, CHR 0xED, CHR 0xEE, CHR 0xEF,
      CHR 0xF0, CHR 0xF1, CHR 0xF2, CHR 0xF3, CHR 0xF4, CHR 0xF5, CHR 0xF6,
      CHR 0xF8, CHR 0xF9, CHR 0xFA, CHR 0xFB, CHR 0xFC, CHR 0xFD, CHR 0xFE]"

definition toLowerCase_unit :: "char \<Rightarrow> char" where
  "toLowerCase_unit c =
     (case map_of (zip upper_units lower_units) c of Some d \<Rightarrow> d | None \<Rightarrow> c)"

definition toLowerCase :: "string \<Rightarrow> string" where
  "toLowerCase s = map toLowerCase_unit s"

definition startsWith :: "string \<Rightarrow> string \<Rightarrow> bool" where
  "startsWith s p = (take (length p) s = p)"

text \<open>\<open>s.split(d)\<close> for a separator of one code unit; the result is never empty.\<close>

fun split_on :: "char \<Rightarrow> string \<Rightarrow> string list" where
  "split_on d [] = [[]]"
| "split_on d (c # cs) =
     (if c = d then [] # split_on d cs
      else (case split_on d cs of [] \<Rightarrow> [[c]] | p # ps \<Rightarrow> (c # p) # ps))"

text \<open>
  \<open>s.split(/\r?\n/g)\<close>: the separators are the line feeds, each together with one
  carriage return right before it when there is one.
\<close>

definition strip_CR :: "string \<Rightarrow> string" where
  "strip_CR p = (if p \<noteq> [] \<and> last p = CR then butlast p else p)"

definition split_lines :: "string \<Rightarrow> string list" where
  "split_lines s = (let ps = split_on LF s in map strip_CR (butlast ps) @ [last ps])"

section \<open>Normalizer\<close>

definition isAlpha :: "char \<Rightarrow> bool" where
  "isAlpha c = (c \<in> set ''abcdefghijklmnopqrstuvwxyzABCDEFGHIJKLMNOPQRSTUVWXYZ'')"

definition isDigit :: "char \<Rightarrow> bool" where
  "isDigit c = (c \<in> set ''0123456789'')"

definition isSchemeUnit :: "char \<Rightarrow> bool" where
  "isSchemeUnit c = (isAlpha c \<or> isDigit c \<or> c \<in> set ''+.-'')"

text \<open>
  \<open>/^[a-zA-Z][a-zA-Z0-9+.-]*:/.test(s)\<close>. The colon is outside the class, so the
  pattern matches exactly when the longest run of class characters after the first
  letter is followed by a colon.
\<close>

definition hasScheme :: "string \<Rightarrow> bool" where
  "hasScheme s =
     (case s of
        [] \<Rightarrow> False
      | c # cs \<Rightarrow> isAlpha c \<and>
          (case dropWhile isSchemeUnit cs of [] \<Rightarrow> False | d # _ \<Rightarrow> d = CHR '':''))"

definition normalizeLine :: "string \<Rightarrow> bool \<Rightarrow> string" where
  "normalizeLine raw assumeHttps =
     (let trimmed = trim raw in
      if length trimmed = 0 then ''''
      else if startsWith trimmed ''//'' then ''https:'' @ trimmed
      else if \<not> assumeHttps then trimmed
      else if hasScheme trimmed then trimmed
      else ''https://'' @ trimmed)"

definition hostnameToDomain :: "string \<Rightarrow> string" where
  "hostnameToDomain hostname =
     (let withoutWww =
            (if startsWith (toLowerCase (take 4 hostname)) ''www.'' then drop 4 hostname
             else hostname)
      in if length withoutWww \<noteq> 0 then withoutWww else hostname)"

definition domainToTld :: "string \<Rightarrow> string option" where
  "domainToTld domain =
     (let parts = filter (\<lambda>p. p \<noteq> []) (split_on CHR ''.'' domain)
      in if length parts \<noteq> 0 then Some (toLowerCase (last parts)) else None)"

section \<open>The platform: URL objects, identifiers, the clock\<close>

text \<open>
  What \<open>new URL(s)\<close> gives on success, as far as \<open>analyzeLinks\<close> reads it:
  \<open>url.protocol\<close> (with its colon), \<open>url.hostname\<close> (empty when the URL has no host),
  \<open>url.pathname\<close>, \<open>Array.from(url.searchParams.keys())\<close> and \<open>url.hash\<close> (empty, or
  \<open>#\<close> and the fragment).
\<close>

record url =
  url_protocol :: string
  url_hostname :: string
  url_pathname :: string
  url_searchParams_keys :: "string list"
  url_hash :: string

text \<open>A thrown value: an \<open>Error\<close> object with its message, or anything else.\<close>

datatype js_thrown = ErrorObj string | OtherThrown

text \<open>
  The environment \<open>analyzeLinks\<close> runs in. \<open>URL_new\<close> is the \<open>URL\<close> constructor
  (\<open>Inl\<close> is what it throws). \<open>safeId_values k\<close> is the string the \<open>k\<close>-th call of
  \<open>safeId\<close> returns (from \<open>crypto.randomUUID()\<close>, or from \<open>Date.now()\<close> and
  \<open>Math.random()\<close> where that is missing) and \<open>safeId_calls\<close> counts the calls made
  so far; \<open>now_iso\<close> is \<open>new Date().toISOString()\<close>.
\<close>

record js_env =
  URL_new :: "string \<Rightarrow> js_thrown + url"
  safeId_values :: "nat \<Rightarrow> string"
  safeId_calls :: nat
  now_iso :: string

definition safeId :: "js_env \<Rightarrow> string \<times> js_env" where
  "safeId e = (safeId_values e (safeId_calls e), e\<lparr>safeId_calls := Suc (safeId_calls e)\<rparr>)"

section \<open>Data model\<close>

record LinkRow =
  rowId :: string
  raw :: string
  normalized :: string
  isValid :: bool
  error :: "string option"
  protocol :: "string option"
  hostname :: "string option"
  domain :: "string option"
  tld :: "string option"
  pathname :: "string option"
  queryParams :: nat
  hasHash :: bool
  row_length :: nat

text \<open>
  A JavaScript number as \<open>analyzeLinks\<close> can produce one. The counters are naturals
  (a double holds every natural below \<open>2 ^ 53\<close> exactly). The result of a division is
  a double: \<open>Finite q\<close> is the double whose value is the rational \<open>q\<close>, and there are
  \<open>Infinity\<close> and \<open>NaN\<close>.
\<close>

datatype js_number = Finite rat | PosInfinity | NaN

text \<open>
  IEEE 754 binary64 division of two positive integers, as \<open>/\<close> does it: the exact
  quotient is rounded to the nearest double, ties to the even significand. A double
  in the binade \<open>2 ^ e \<le> x < 2 ^ (e + 1)\<close> is a multiple of \<open>2 ^ (e - 52)\<close>; below
  \<open>2 ^ (- 1022)\<close> the doubles are the multiples of \<open>2 ^ (- 1074)\<close>; a result that
  reaches \<open>2 ^ 1024\<close> is \<open>Infinity\<close>.
\<close>

fun bit_length :: "nat \<Rightarrow> nat" where
  "bit_length n = (if n = 0 then 0 else Suc (bit_length (n div 2)))"

declare bit_length.simps [simp del]

definition pow2 :: "int \<Rightarrow> rat" where
  "pow2 k = (if 0 \<le> k then 2 ^ nat k else 1 / 2 ^ nat (- k))"

text \<open>The binade of \<open>a / b\<close> for positive \<open>a\<close> and \<open>b\<close>: the floor of its binary logarithm.\<close>

definition binade :: "nat \<Rightarrow> nat \<Rightarrow> int" where
  "binade a b =
     (let k = int (bit_length a) - int (bit_length b)
      in if of_nat b * pow2 k \<le> (of_nat a :: rat) then k else k - 1)"

definition round_half_even :: "rat \<Rightarrow> int" where
  "round_half_even x =
     (let f = \<lfloor>x\<rfloor>; r = x - of_int f
      in if r < 1 / 2 then f else if 1 / 2 < r then f + 1
         else if even f then f else f + 1)"

definition js_div :: "nat \<Rightarrow> nat \<Rightarrow> js_number" where
  "js_div a b =
     (if b = 0 then (if a = 0 then NaN else PosInfinity)
      else if a = 0 then Finite 0
      else
        (let ulp = pow2 (max (binade a b) (- 1022) - 52);
             q = of_int (round_half_even (of_nat a / of_nat b / ulp)) * ulp
         in if pow2 1024 \<le> q then PosInfinity else Finite q))"

record Metrics =
  total :: nat
  valid :: nat
  invalid :: nat
  uniqueDomains :: nat
  withQuery :: nat
  withHash :: nat
  avgLength :: js_number

text \<open>
  A \<open>Record<string, number>\<close> built by \<open>inc\<close> on \<open>{}\<close>: its own properties in the
  order they were created. A value is a count, or the string that \<open>+ 1\<close> makes of a
  property inherited from \<open>Object.prototype\<close> (\<open>Text\<close>; its characters are not
  modelled).
\<close>

datatype dist_value = Count nat | Text

type_synonym dist = "(string \<times> dist_value) list"

record Distributions =
  protocolDist :: dist
  domainDist :: dist
  tldDist :: dist

record LinkAnalysis =
  analysisId :: string
  createdAt :: string
  input :: string
  items :: "LinkRow list"
  metrics :: Metrics
  distributions :: Distributions

record AnalyzeOptions =
  assumeHttps :: bool
  dedupe :: bool

section \<open>Counting\<close>

text \<open>The property names every plain object inherits from \<open>Object.prototype\<close>.\<close>

definition Object_prototype_keys :: "string list" where
  "Object_prototype_keys =
     [''constructor'', ''hasOwnProperty'', ''isPrototypeOf'', ''propertyIsEnumerable'',
      ''toLocaleString'', ''toString'', ''valueOf'', ''__defineGetter__'',
      ''__defineSetter__'', ''__lookupGetter__'', ''__lookupSetter__'', ''__proto__'']"

fun set_own :: "string \<Rightarrow> 'v \<Rightarrow> (string \<times> 'v) list \<Rightarrow> (string \<times> 'v) list" where
  "set_own k v [] = [(k, v)]"
| "set_own k v (p # ps) = (if fst p = k then (k, v) # ps else p # set_own k v ps)"

text \<open>
  \<open>map[key] = (map[key] ?? 0) + 1\<close>. A key the object owns is read from it; a key
  it does not own is read from \<open>Object.prototype\<close>, where it is a function or an
  object and never nullish, so \<open>+ 1\<close> makes a string of it. Assigning a string to
  \<open>__proto__\<close> calls the inherited setter, which ignores it.
\<close>

definition inc :: "dist \<Rightarrow> string \<Rightarrow> dist" where
  "inc m key =
     (case map_of m key of
        Some (Count n) \<Rightarrow> set_own key (Count (n + 1)) m
      | Some Text \<Rightarrow> set_own key Text m
      | None \<Rightarrow>
          if key = ''__proto__'' then m
          else if key \<in> set Object_prototype_keys then set_own key Text m
          else set_own key (Count 1) m)"

section \<open>Deduplicator\<close>

text \<open>
  \<open>Array.from(new Map(entries).values())\<close>: a \<open>Map\<close> keeps its keys in the order of
  their first insertion, and setting a key that is there replaces its value where it
  stands.
\<close>

definition Map_new :: "(string \<times> 'v) list \<Rightarrow> (string \<times> 'v) list" where
  "Map_new entries = foldl (\<lambda>m (k, v). set_own k v m) [] entries"

definition Map_values :: "(string \<times> 'v) list \<Rightarrow> 'v list" where
  "Map_values m = map snd m"

section \<open>The pipeline\<close>

definition input_lines :: "string \<Rightarrow> string list" where
  "input_lines inp = filter (\<lambda>l. length l > 0) (map trim (split_lines inp))"

definition normalizedList :: "string \<Rightarrow> AnalyzeOptions \<Rightarrow> (string \<times> string) list" where
  "normalizedList inp options =
     map (\<lambda>raw. (raw, normalizeLine raw (assumeHttps options))) (input_lines inp)"

definition unique :: "string \<Rightarrow> AnalyzeOptions \<Rightarrow> (string \<times> string) list" where
  "unique inp options =
     (if dedupe options
      then Map_values (Map_new (map (\<lambda>it. (toLowerCase (snd it), it)) (normalizedList inp options)))
      else normalizedList inp options)"

text \<open>The callback of \<open>unique.map\<close>: one row, from its \<open>(raw, normalized)\<close> pair.\<close>

definition toRow :: "string \<times> string \<Rightarrow> js_env \<Rightarrow> LinkRow \<times> js_env" where
  "toRow it e =
     (let (i, e1) = safeId e;
          base = \<lparr> rowId = i, raw = fst it, normalized = snd it, isValid = False,
                   error = None, protocol = None, hostname = None, domain = None,
                   tld = None, pathname = None, queryParams = 0, hasHash = False,
                   row_length = length (snd it) \<rparr>
      in case URL_new e1 (snd it) of
           Inr u \<Rightarrow>
             (let protocol' = remove1 CHR '':'' (url_protocol u);
                  hostname' = (if url_hostname u \<noteq> [] then Some (url_hostname u) else None);
                  domain' = (case hostname' of
                               Some h \<Rightarrow> if h \<noteq> [] then Some (hostnameToDomain h) else None
                             | None \<Rightarrow> None)
              in (base\<lparr> isValid := True,
                         protocol := Some protocol',
                         hostname := hostname',
                         domain := domain',
                         tld := (case domain' of
                                   Some d \<Rightarrow> if d \<noteq> [] then domainToTld d else None
                                 | None \<Rightarrow> None),
                         pathname := Some (url_pathname u),
                         queryParams := length (url_searchParams_keys u),
                         hasHash := (url_hash u \<noteq> [] \<and> length (url_hash u) > 1) \<rparr>, e1))
         | Inl err \<Rightarrow>
             (let message = (case err of ErrorObj m \<Rightarrow> m
                                       | OtherThrown \<Rightarrow> ''URL inv'' @ [CHR 0xE1] @ ''lida'')
              in (base\<lparr> error := Some message \<rparr>, e1)))"

fun toRows :: "(string \<times> string) list \<Rightarrow> js_env \<Rightarrow> LinkRow list \<times> js_env" where
  "toRows [] e = ([], e)"
| "toRows (it # its) e =
     (let (r, e1) = toRow it e; (rs, e2) = toRows its e1 in (r # rs, e2))"

text \<open>The local variables of the aggregation loop, and one turn of the loop.\<close>

record tally =
  t_protocolDist :: dist
  t_domainDist :: dist
  t_tldDist :: dist
  t_valid :: nat
  t_invalid :: nat
  t_withQuery :: nat
  t_withHash :: nat
  t_lengthSum :: nat

definition truthy :: "string option \<Rightarrow> bool" where
  "truthy v = (case v of Some s \<Rightarrow> s \<noteq> [] | None \<Rightarrow> False)"

definition tally0 :: tally where
  "tally0 = \<lparr> t_protocolDist = [], t_domainDist = [], t_tldDist = [], t_valid = 0,
               t_invalid = 0, t_withQuery = 0, t_withHash = 0, t_lengthSum = 0 \<rparr>"

definition tally_step :: "tally \<Rightarrow> LinkRow \<Rightarrow> tally" where
  "tally_step t it =
     t\<lparr> t_lengthSum := t_lengthSum t + row_length it,
        t_valid := (if isValid it then t_valid t + 1 else t_valid t),
        t_invalid := (if isValid it then t_invalid t else t_invalid t + 1),
        t_withQuery := (if queryParams it > 0 then t_withQuery t + 1 else t_withQuery t),
        t_withHash := (if hasHash it then t_withHash t + 1 else t_withHash t),
        t_protocolDist := (if truthy (protocol it) then inc (t_protocolDist t) (the (protocol it))
                           else t_protocolDist t),
        t_domainDist := (if truthy (domain it)
                         then inc (t_domainDist t) (toLowerCase (the (domain it)))
                         else t_domainDist t),
        t_tldDist := (if truthy (tld it) then inc (t_tldDist t) (the (tld it))
                      else t_tldDist t) \<rparr>"

definition analyzeLinks :: "string \<Rightarrow> AnalyzeOptions \<Rightarrow> js_env \<Rightarrow> LinkAnalysis \<times> js_env" where
  "analyzeLinks inp options e =
     (let (its, e1) = toRows (unique inp options) e;
          t = foldl tally_step tally0 its;
          uniqueDomains' = length (t_domainDist t);
          (i, e2) = safeId e1
      in (\<lparr> analysisId = i,
            createdAt = now_iso e2,
            input = inp,
            items = its,
            metrics = \<lparr> total = length its,
                        valid = t_valid t,
                        invalid = t_invalid t,
                        uniqueDomains = uniqueDomains',
                        withQuery = t_withQuery t,
                        withHash = t_withHash t,
                        avgLength = (if length its \<noteq> 0 then js_div (t_lengthSum t) (length its)
                                     else Finite 0) \<rparr>,
            distributions = \<lparr> protocolDist = t_protocolDist t,
                              domainDist = t_domainDist t,
                              tldDist = t_tldDist t \<rparr> \<rparr>, e2))"

section \<open>A model of the URL constructor\<close>

text \<open>
  \<open>new URL(s)\<close> is the platform's parser (the WHATWG URL Standard), not code of this
  program: \<open>analyzeLinks\<close> takes it from its environment, and the general theorems
  below hold for every constructor. For the statements about particular URLs,
  \<open>URL_model\<close> gives the parser's result on a fragment of its input language where
  the standard's algorithm is short to follow; \<open>None\<close> means that the input is outside
  the fragment, not that the parser fails. The fragment:
  \<^item> every code unit is a printable ASCII character of the sets below, so nothing is
    stripped or percent-encoded;
  \<^item> the input starts with a scheme and a colon (the scheme is lower-cased);
  \<^item> after a special scheme other than \<open>file\<close> come \<open>//\<close>, a host, and a path: the host
    is made of letters, digits, \<open>-\<close> and \<open>.\<close>, has no empty label and no \<open>xn--\<close> label,
    and its last label starts with a letter (so it is a domain, not an IPv4 address,
    and the parser lower-cases it); the path is empty or starts with \<open>/\<close>, and has no
    \<open>.\<close> (so there are no dot segments); an empty path reads as \<open>/\<close>;
  \<^item> after any other scheme comes an opaque path that does not start with \<open>/\<close>: the
    URL has no host, and \<open>hostname\<close> is the empty string;
  \<^item> then, optionally, \<open>?\<close> and a query, and \<open>#\<close> and a fragment. The keys of
    \<open>searchParams\<close> are the texts before the first \<open>=\<close> of the non-empty pieces of the
    query between \<open>&\<close>, one for each piece.
\<close>

definition special_schemes :: "string list" where
  "special_schemes = [''http'', ''https'', ''ws'', ''wss'', ''ftp'']"

definition isHostUnit :: "char \<Rightarrow> bool" where
  "isHostUnit c = (isAlpha c \<or> isDigit c \<or> c \<in> set ''-.'')"

definition isPathUnit :: "char \<Rightarrow> bool" where
  "isPathUnit c = (isAlpha c \<or> isDigit c \<or> c \<in> set ''-_/'')"

definition isOpaqueUnit :: "char \<Rightarrow> bool" where
  "isOpaqueUnit c = (isAlpha c \<or> isDigit c \<or> c \<in> set ''-_.@'')"

definition isQueryUnit :: "char \<Rightarrow> bool" where
  "isQueryUnit c = (isAlpha c \<or> isDigit c \<or> c \<in> set ''-_=&'')"

definition isFragmentUnit :: "char \<Rightarrow> bool" where
  "isFragmentUnit c = (isAlpha c \<or> isDigit c \<or> c \<in> set ''-_'')"

definition host_in_model :: "string \<Rightarrow> bool" where
  "host_in_model h =
     (let labels = split_on CHR ''.'' h
      in list_all isHostUnit h \<and>
         list_all (\<lambda>l. l \<noteq> [] \<and> \<not> startsWith (toLowerCase l) ''xn--'') labels \<and>
         isAlpha (hd (last labels)))"

definition searchParams_keys :: "string \<Rightarrow> string list" where
  "searchParams_keys q =
     map (takeWhile (\<lambda>c. c \<noteq> CHR ''=''))
         (filter (\<lambda>p. p \<noteq> []) (split_on CHR ''&'' q))"

definition URL_model :: "string \<Rightarrow> url option" where
  "URL_model s =
     (let scheme = toLowerCase (takeWhile isSchemeUnit s);
          rest = drop (length scheme + 1) s;
          before_hash = takeWhile (\<lambda>c. c \<noteq> CHR ''#'') rest;
          fragment = drop (length before_hash + 1) rest;
          before_query = takeWhile (\<lambda>c. c \<noteq> CHR ''?'') before_hash;
          query = drop (length before_query + 1) before_hash;
          authority = takeWhile (\<lambda>c. c \<noteq> CHR ''/'') (drop 2 before_query);
          path = dropWhile (\<lambda>c. c \<noteq> CHR ''/'') (drop 2 before_query);
          keys = searchParams_keys query;
          hash = (if fragment = [] then [] else CHR ''#'' # fragment)
      in if \<not> hasScheme s \<or> \<not> list_all isQueryUnit query
            \<or> \<not> list_all isFragmentUnit fragment then None
         else if scheme \<in> set special_schemes then
           (if startsWith before_query ''//'' \<and> host_in_model authority
               \<and> list_all isPathUnit path
            then Some \<lparr> url_protocol = scheme @ '':'',
                        url_hostname = toLowerCase authority,
                        url_pathname = (if path = [] then ''/'' else path),
                        url_searchParams_keys = keys,
                        url_hash = hash \<rparr>
            else None)
         else if scheme = ''file'' then None
         else
           (if \<not> startsWith before_query ''/'' \<and> list_all isOpaqueUnit before_query
            then Some \<lparr> url_protocol = scheme @ '':'',
                        url_hostname = [],
                        url_pathname = before_query,
                        url_searchParams_keys = keys,
                        url_hash = hash \<rparr>
            else None))"

text \<open>A constructor conforms when it agrees with the model on the fragment.\<close>

definition conforms :: "(string \<Rightarrow> js_thrown + url) \<Rightarrow> bool" where
  "conforms ctor = (\<forall>s u. URL_model s = Some u \<longrightarrow> ctor s = Inr u)"

text \<open>
  A conforming constructor and an environment around it, for concrete runs: outside
  the fragment this constructor throws, which only matters for inputs no statement
  below uses.
\<close>

definition URL_reference :: "string \<Rightarrow> js_thrown + url" where
  "URL_reference s =
     (case URL_model s of Some u \<Rightarrow> Inr u | None \<Rightarrow> Inl (ErrorObj ''Invalid URL''))"

definition reference_env :: js_env where
  "reference_env =
     \<lparr> URL_new = URL_reference,
       safeId_values = (\<lambda>k. ''id-'' @ replicate k CHR ''i''),
       safeId_calls = 0,
       now_iso = ''2024-01-01T00:00:00.000Z'' \<rparr>"

section \<open>Properties of the string primitives\<close>

lemma dropWhile_last_keep:
  "xs \<noteq> [] \<Longrightarrow> \<not> P (last xs) \<Longrightarrow> dropWhile P xs \<noteq> [] \<and> last (dropWhile P xs) = last xs"
  by (induction xs) (auto split: if_splits)

lemma trim_fixed:
  assumes "s \<noteq> []" "\<not> isWhiteSpace (hd s)" "\<not> isWhiteSpace (last s)"
  shows "trim s = s"
proof -
  from assms have 1: "dropWhile isWhiteSpace s = s"
    by (cases s) auto
  from assms have "rev s \<noteq> []" "\<not> isWhiteSpace (hd (rev s))"
    by (simp_all add: hd_rev)
  then have 2: "dropWhile isWhiteSpace (rev s) = rev s"
    by (cases "rev s") auto
  show ?thesis unfolding trim_def by (simp add: 1 2)
qed

lemma trim_ends:
  assumes "trim s \<noteq> []"
  shows "\<not> isWhiteSpace (hd (trim s)) \<and> \<not> isWhiteSpace (last (trim s))"
proof -
  let ?d = "dropWhile isWhiteSpace s"
  let ?u = "dropWhile isWhiteSpace (rev ?d)"
  from assms have u: "?u \<noteq> []" by (simp add: trim_def)
  have d: "?d \<noteq> []"
  proof
    assume a: "?d = []"
    have "?u = []" by (simp only: a rev.simps dropWhile.simps)
    with u show False by blast
  qed
  then have hd_d: "\<not> isWhiteSpace (hd ?d)" by (rule hd_dropWhile)
  from d hd_d have "rev ?d \<noteq> []" "\<not> isWhiteSpace (last (rev ?d))"
    by (simp_all add: last_rev)
  then have "last ?u = last (rev ?d)"
    using dropWhile_last_keep [of "rev ?d" isWhiteSpace] by simp
  then have "last ?u = hd ?d" using d by (simp add: last_rev)
  with u hd_d have A: "\<not> isWhiteSpace (hd (trim s))"
    by (simp add: trim_def hd_rev)
  from u have "\<not> isWhiteSpace (hd ?u)" by (rule hd_dropWhile)
  with u have B: "\<not> isWhiteSpace (last (trim s))"
    by (simp add: trim_def last_rev)
  from A B show ?thesis by simp
qed

lemma trim_trim: "trim (trim s) = trim s"
proof (cases "trim s = []")
  case True
  have "trim [] = []" by (simp add: trim_def)
  with True show ?thesis by simp
next
  case False
  then show ?thesis using trim_ends [OF False] by (simp add: trim_fixed)
qed

lemma hasScheme_https: "hasScheme (''https:'' @ t)"
  by (simp add: hasScheme_def isAlpha_def isSchemeUnit_def isDigit_def)

text \<open>
  Claim C10: normalization is idempotent. For every string \<open>s\<close> and either value of
  \<open>assumeHttps\<close>, normalizing the normalized string gives it back.
\<close>

theorem normalizeLine_idempotent:
  "normalizeLine (normalizeLine s a) a = normalizeLine s a"
proof (cases "trim s = []")
  case True
  have "trim [] = []" by (simp add: trim_def)
  with True show ?thesis by (simp add: normalizeLine_def)
next
  case False
  let ?t = "trim s"
  have ends: "\<not> isWhiteSpace (hd ?t)" "\<not> isWhiteSpace (last ?t)"
    using trim_ends [OF False] by simp_all
  have h: "\<not> isWhiteSpace CHR ''h''" by (simp add: isWhiteSpace_def)
  have p1: "trim (''https:'' @ ?t) = ''https:'' @ ?t"
    using False ends h by (intro trim_fixed) simp_all
  have p2: "trim (''https://'' @ ?t) = ''https://'' @ ?t"
    using False ends h by (intro trim_fixed) simp_all
  have s1: "\<not> startsWith (''https:'' @ ?t) ''//''" by (simp add: startsWith_def)
  have s2: "\<not> startsWith (''https://'' @ ?t) ''//''" by (simp add: startsWith_def)
  have h1: "hasScheme (''https:'' @ ?t)" by (rule hasScheme_https)
  have h2: "hasScheme (''https://'' @ ?t)" using hasScheme_https [of "''//'' @ ?t"] by simp
  show ?thesis
    using False p1 p2 s1 s2 h1 h2
    by (simp add: normalizeLine_def Let_def trim_trim)
qed

section \<open>Aggregator\<close>


lemma tally_lengthSum:
  "t_lengthSum (foldl tally_step t its) = t_lengthSum t + sum_list (map row_length its)"
  by (induction its arbitrary: t) (simp_all add: tally_step_def)

lemma analyzeLinks_items:
  "items (fst (analyzeLinks inp options e)) = fst (toRows (unique inp options) e)"
  by (simp add: analyzeLinks_def Let_def split: prod.splits)

lemma analyzeLinks_metrics:
  "metrics (fst (analyzeLinks inp options e)) =
     (let its = fst (toRows (unique inp options) e); t = foldl tally_step tally0 its
      in \<lparr> total = length its, valid = t_valid t, invalid = t_invalid t,
            uniqueDomains = length (t_domainDist t), withQuery = t_withQuery t,
            withHash = t_withHash t,
            avgLength = (if length its \<noteq> 0 then js_div (t_lengthSum t) (length its)
                         else Finite 0) \<rparr>)"
  by (simp add: analyzeLinks_def Let_def split: prod.splits)

lemma analyzeLinks_distributions:
  "distributions (fst (analyzeLinks inp options e)) =
     (let t = foldl tally_step tally0 (fst (toRows (unique inp options) e))
      in \<lparr> protocolDist = t_protocolDist t, domainDist = t_domainDist t,
            tldDist = t_tldDist t \<rparr>)"
  by (simp add: analyzeLinks_def Let_def split: prod.splits)


lemma unique_empty: "unique [] options = []"
  by (simp add: unique_def normalizedList_def input_lines_def split_lines_def trim_def
      Map_new_def Map_values_def)

section \<open>Rows and the environment\<close>

lemma safeId_URL_new: "URL_new (snd (safeId e)) = URL_new e"
  by (simp add: safeId_def)

lemma toRow_env: "snd (toRow it e) = e\<lparr>safeId_calls := Suc (safeId_calls e)\<rparr>"
  by (simp add: toRow_def safeId_def Let_def split: sum.splits)

lemma toRows_env:
  "snd (toRows its e) = e\<lparr>safeId_calls := safeId_calls e + length its\<rparr>"
proof (induction its arbitrary: e)
  case Nil
  show ?case by simp
next
  case (Cons it its)
  have "snd (toRows (it # its) e) = snd (toRows its (snd (toRow it e)))"
    by (simp add: Let_def split: prod.splits)
  then show ?case by (simp add: Cons.IH toRow_env)
qed

lemma toRows_Cons:
  "fst (toRows (it # its) e) = fst (toRow it e) # fst (toRows its (snd (toRow it e)))"
  by (simp add: Let_def split: prod.splits)

lemma toRows_length: "length (fst (toRows its e)) = length its"
  by (induction its arbitrary: e) (simp_all add: toRows_Cons del: toRows.simps(2))

text \<open>A row without its identifier depends on the constructor only.\<close>

lemma toRow_without_id:
  "URL_new e1 = URL_new e2 \<Longrightarrow>
     (fst (toRow it e1))\<lparr>rowId := x\<rparr> = (fst (toRow it e2))\<lparr>rowId := x\<rparr>"
  by (simp add: toRow_def safeId_def Let_def split: sum.splits)

lemma toRows_without_ids:
  "URL_new e1 = URL_new e2 \<Longrightarrow>
     map (\<lambda>r. r\<lparr>rowId := x\<rparr>) (fst (toRows its e1)) = map (\<lambda>r. r\<lparr>rowId := x\<rparr>) (fst (toRows its e2))"
proof (induction its arbitrary: e1 e2)
  case Nil
  show ?case by simp
next
  case (Cons it its)
  have "URL_new (snd (toRow it e1)) = URL_new (snd (toRow it e2))"
    using Cons.prems by (simp add: toRow_env)
  then have "map (\<lambda>r. r\<lparr>rowId := x\<rparr>) (fst (toRows its (snd (toRow it e1))))
      = map (\<lambda>r. r\<lparr>rowId := x\<rparr>) (fst (toRows its (snd (toRow it e2))))"
    by (rule Cons.IH)
  with toRow_without_id [OF Cons.prems, where it = it and x = x] show ?case
    by (simp add: toRows_Cons del: toRows.simps(2))
qed

lemma tally_step_without_id: "tally_step t (r\<lparr>rowId := x\<rparr>) = tally_step t r"
  by (simp add: tally_step_def)

lemma tally_without_ids:
  "foldl tally_step t (map (\<lambda>r. r\<lparr>rowId := x\<rparr>) its) = foldl tally_step t its"
  by (induction its arbitrary: t) (simp_all add: tally_step_without_id)

lemma tally_same:
  assumes "map (\<lambda>r. r\<lparr>rowId := x\<rparr>) its1 = map (\<lambda>r. r\<lparr>rowId := x\<rparr>) its2"
  shows "foldl tally_step t its1 = foldl tally_step t its2"
  using tally_without_ids [of t x its1] tally_without_ids [of t x its2] assms by simp

lemma analyzeLinks_ids:
  "analysisId (fst (analyzeLinks inp options e))
     = safeId_values e (safeId_calls e + length (unique inp options))
   \<and> createdAt (fst (analyzeLinks inp options e)) = now_iso e
   \<and> input (fst (analyzeLinks inp options e)) = inp"
proof -
  obtain its e1 where r: "toRows (unique inp options) e = (its, e1)"
    by (cases "toRows (unique inp options) e")
  from r have "e1 = snd (toRows (unique inp options) e)" by simp
  then have e1: "e1 = e\<lparr>safeId_calls := safeId_calls e + length (unique inp options)\<rparr>"
    by (simp only: toRows_env)
  show ?thesis
    by (simp add: analyzeLinks_def Let_def safeId_def r e1)
qed

lemma toRows_ids:
  "map rowId (fst (toRows its e)) = map (\<lambda>k. safeId_values e (safeId_calls e + k)) [0 ..< length its]"
proof (induction its arbitrary: e)
  case Nil
  show ?case by simp
next
  case (Cons it its)
  have 1: "rowId (fst (toRow it e)) = safeId_values e (safeId_calls e)"
    by (simp add: toRow_def safeId_def Let_def split: sum.splits)
  have 2: "map rowId (fst (toRows its (snd (toRow it e))))
      = map (\<lambda>k. safeId_values e (Suc (safeId_calls e) + k)) [0 ..< length its]"
    by (simp add: Cons.IH toRow_env)
  have 3: "[0 ..< length (it # its)] = 0 # map Suc [0 ..< length its]"
    by (subst upt_conv_Cons) (simp_all add: map_Suc_upt del: upt_Suc)
  show ?case
    unfolding 3 by (simp add: toRows_Cons 1 2 comp_def del: upt_Suc toRows.simps(2))
qed

lemma analyzeLinks_env:
  "snd (analyzeLinks inp options e)
     = e\<lparr>safeId_calls := Suc (safeId_calls e + length (unique inp options))\<rparr>"
proof -
  obtain its e1 where r: "toRows (unique inp options) e = (its, e1)"
    by (cases "toRows (unique inp options) e")
  from r have "e1 = snd (toRows (unique inp options) e)" by simp
  then have e1: "e1 = e\<lparr>safeId_calls := safeId_calls e + length (unique inp options)\<rparr>"
    by (simp only: toRows_env)
  show ?thesis
    by (simp add: analyzeLinks_def Let_def safeId_def r e1)
qed

text \<open>
  Claim C1, as amended: \<open>analyzeLinks\<close> is deterministic up to the identifiers and the
  time stamp. Two invocations with the same input and options, under the same URL
  constructor, return reports with the same \<open>input\<close>, the same items up to the items'
  \<open>id\<close>, the same metrics and the same distributions. The report's \<open>id\<close>, the items'
  \<open>id\<close>s and \<open>createdAt\<close> are not functions of the input and the options: they are what
  the environment's \<open>safeId\<close> calls and clock return at the time of the invocation.
\<close>

theorem analyzeLinks_deterministic_up_to_ids:
  assumes "URL_new e1 = URL_new e2"
  shows "input (fst (analyzeLinks inp options e1)) = input (fst (analyzeLinks inp options e2))
    \<and> map (\<lambda>r. r\<lparr>rowId := []\<rparr>) (items (fst (analyzeLinks inp options e1)))
        = map (\<lambda>r. r\<lparr>rowId := []\<rparr>) (items (fst (analyzeLinks inp options e2)))
    \<and> metrics (fst (analyzeLinks inp options e1)) = metrics (fst (analyzeLinks inp options e2))
    \<and> distributions (fst (analyzeLinks inp options e1))
        = distributions (fst (analyzeLinks inp options e2))
    \<and> map rowId (items (fst (analyzeLinks inp options e1)))
        = map (\<lambda>k. safeId_values e1 (safeId_calls e1 + k))
            [0 ..< length (items (fst (analyzeLinks inp options e1)))]
    \<and> analysisId (fst (analyzeLinks inp options e1))
        = safeId_values e1 (safeId_calls e1 + length (items (fst (analyzeLinks inp options e1))))
    \<and> createdAt (fst (analyzeLinks inp options e1)) = now_iso e1"
proof -
  let ?u = "unique inp options"
  have rows: "map (\<lambda>r. r\<lparr>rowId := []\<rparr>) (fst (toRows ?u e1))
      = map (\<lambda>r. r\<lparr>rowId := []\<rparr>) (fst (toRows ?u e2))"
    using assms by (rule toRows_without_ids)
  then have t: "foldl tally_step tally0 (fst (toRows ?u e1))
      = foldl tally_step tally0 (fst (toRows ?u e2))"
    by (rule tally_same)
  have len: "length (fst (toRows ?u e1)) = length (fst (toRows ?u e2))"
    by (simp add: toRows_length)
  have 1: "input (fst (analyzeLinks inp options e1)) = input (fst (analyzeLinks inp options e2))"
    by (simp add: analyzeLinks_ids)
  have 2: "metrics (fst (analyzeLinks inp options e1)) = metrics (fst (analyzeLinks inp options e2))"
    by (simp only: analyzeLinks_metrics Let_def t len)
  have 3: "distributions (fst (analyzeLinks inp options e1))
        = distributions (fst (analyzeLinks inp options e2))"
    by (simp only: analyzeLinks_distributions Let_def t)
  have 4: "map rowId (items (fst (analyzeLinks inp options e1)))
        = map (\<lambda>k. safeId_values e1 (safeId_calls e1 + k))
            [0 ..< length (items (fst (analyzeLinks inp options e1)))]"
    by (simp only: analyzeLinks_items toRows_ids toRows_length)
  have 5: "analysisId (fst (analyzeLinks inp options e1))
        = safeId_values e1 (safeId_calls e1 + length (items (fst (analyzeLinks inp options e1))))"
    by (simp only: analyzeLinks_items analyzeLinks_ids toRows_length)
  have 6: "createdAt (fst (analyzeLinks inp options e1)) = now_iso e1"
    by (simp only: analyzeLinks_ids)
  from rows 1 2 3 4 5 6 show ?thesis
    by (simp only: analyzeLinks_items simp_thms)
qed

lemma toRows_rows:
  "r \<in> set (fst (toRows its e)) \<Longrightarrow>
     \<exists>it e'. it \<in> set its \<and> URL_new e' = URL_new e \<and> r = fst (toRow it e')"
proof (induction its arbitrary: e)
  case Nil
  then show ?case by simp
next
  case (Cons it its)
  from Cons.prems have "r = fst (toRow it e) \<or> r \<in> set (fst (toRows its (snd (toRow it e))))"
    by (simp add: toRows_Cons del: toRows.simps(2))
  then show ?case
  proof
    assume "r = fst (toRow it e)"
    then have "it \<in> set (it # its) \<and> URL_new e = URL_new e \<and> r = fst (toRow it e)"
      by simp
    then show ?thesis by blast
  next
    assume "r \<in> set (fst (toRows its (snd (toRow it e))))"
    from Cons.IH [OF this] obtain it' e' where
      "it' \<in> set its" "URL_new e' = URL_new (snd (toRow it e))" "r = fst (toRow it' e')"
      by blast
    then have "it' \<in> set (it # its) \<and> URL_new e' = URL_new e \<and> r = fst (toRow it' e')"
      by (simp add: toRow_env)
    then show ?thesis by blast
  qed
qed

lemma toRows_raw: "map raw (fst (toRows its e)) = map fst its"
proof (induction its arbitrary: e)
  case Nil
  show ?case by simp
next
  case (Cons it its)
  have "raw (fst (toRow it e)) = fst it"
    by (simp add: toRow_def safeId_def Let_def split: sum.splits)
  then show ?case by (simp add: toRows_Cons Cons.IH del: toRows.simps(2))
qed

lemma toRows_normalized: "map normalized (fst (toRows its e)) = map snd its"
proof (induction its arbitrary: e)
  case Nil
  show ?case by simp
next
  case (Cons it its)
  have "normalized (fst (toRow it e)) = snd it"
    by (simp add: toRow_def safeId_def Let_def split: sum.splits)
  then show ?case by (simp add: toRows_Cons Cons.IH del: toRows.simps(2))
qed

lemma hostnameToDomain_nonempty: "h \<noteq> [] \<Longrightarrow> hostnameToDomain h \<noteq> []"
  by (simp add: hostnameToDomain_def Let_def)

lemma toRow_shape:
  "(isValid (fst (toRow it e)) \<longleftrightarrow> error (fst (toRow it e)) = None)
   \<and> (isValid (fst (toRow it e)) \<longrightarrow>
         protocol (fst (toRow it e)) \<noteq> None \<and> pathname (fst (toRow it e)) \<noteq> None
         \<and> (domain (fst (toRow it e)) \<noteq> None \<longleftrightarrow> hostname (fst (toRow it e)) \<noteq> None)
         \<and> (tld (fst (toRow it e)) \<noteq> None \<longrightarrow> domain (fst (toRow it e)) \<noteq> None))
   \<and> (\<not> isValid (fst (toRow it e)) \<longrightarrow>
         protocol (fst (toRow it e)) = None \<and> hostname (fst (toRow it e)) = None
         \<and> domain (fst (toRow it e)) = None \<and> tld (fst (toRow it e)) = None
         \<and> pathname (fst (toRow it e)) = None)
   \<and> row_length (fst (toRow it e)) = length (normalized (fst (toRow it e)))"
  by (cases "URL_new e (snd it)")
     (simp_all add: toRow_def safeId_def Let_def hostnameToDomain_nonempty)

section \<open>Concrete runs\<close>

lemmas model_defs = URL_model_def hasScheme_def isAlpha_def isDigit_def isSchemeUnit_def
  isHostUnit_def isPathUnit_def isOpaqueUnit_def isQueryUnit_def isFragmentUnit_def
  host_in_model_def searchParams_keys_def special_schemes_def startsWith_def
  toLowerCase_def toLowerCase_unit_def upper_units_def lower_units_def Let_def

lemmas line_defs = unique_def normalizedList_def input_lines_def split_lines_def strip_CR_def
  trim_def isWhiteSpace_def LF_def CR_def normalizeLine_def startsWith_def hasScheme_def
  isAlpha_def isSchemeUnit_def isDigit_def Map_new_def Map_values_def Let_def
  toLowerCase_def toLowerCase_unit_def upper_units_def lower_units_def

lemma URL_model_nota_url:
  "URL_model ''https://nota-url'' =
     Some \<lparr>url_protocol = ''https:'', url_hostname = ''nota-url'', url_pathname = ''/'',
            url_searchParams_keys = [], url_hash = []\<rparr>"
  by (simp add: model_defs)

lemma URL_model_www_Example:
  "URL_model ''https://www.Example.com/x'' =
     Some \<lparr>url_protocol = ''https:'', url_hostname = ''www.example.com'', url_pathname = ''/x'',
            url_searchParams_keys = [], url_hash = []\<rparr>"
  by (simp add: model_defs)

lemma URL_model_query_ab:
  "URL_model ''http://example.com/path?a=1&b=2'' =
     Some \<lparr>url_protocol = ''http:'', url_hostname = ''example.com'', url_pathname = ''/path'',
            url_searchParams_keys = [''a'', ''b''], url_hash = []\<rparr>"
  by (simp add: model_defs)

lemma URL_model_query_aa:
  "URL_model ''http://example.com/path?a=1&a=2'' =
     Some \<lparr>url_protocol = ''http:'', url_hostname = ''example.com'', url_pathname = ''/path'',
            url_searchParams_keys = [''a'', ''a''], url_hash = []\<rparr>"
  by (simp add: model_defs)

lemma URL_model_mailto:
  "URL_model ''mailto:x'' =
     Some \<lparr>url_protocol = ''mailto:'', url_hostname = [], url_pathname = ''x'',
            url_searchParams_keys = [], url_hash = []\<rparr>"
  by (simp add: model_defs)

lemma URL_model_example:
  "URL_model ''https://example.com'' =
     Some \<lparr>url_protocol = ''https:'', url_hostname = ''example.com'', url_pathname = ''/'',
            url_searchParams_keys = [], url_hash = []\<rparr>"
  by (simp add: model_defs)

lemma conforms_URL_reference: "conforms URL_reference"
  by (simp add: conforms_def URL_reference_def)

lemma conforms_reference_env: "conforms (URL_new reference_env)"
  by (simp add: reference_env_def conforms_URL_reference)

lemma conformsD: "conforms ctor \<Longrightarrow> URL_model s = Some u \<Longrightarrow> ctor s = Inr u"
  by (simp add: conforms_def)

lemma unique_nota_url:
  "unique ''nota-url'' \<lparr>assumeHttps = True, dedupe = d\<rparr> = [(''nota-url'', ''https://nota-url'')]"
  by (cases d) (simp_all add: line_defs)

lemma unique_mailto:
  "unique ''mailto:x'' \<lparr>assumeHttps = True, dedupe = True\<rparr> = [(''mailto:x'', ''mailto:x'')]"
  by (simp add: line_defs)

lemma unique_www_Example:
  "unique ''https://www.Example.com/x'' options
     = [(''https://www.Example.com/x'', ''https://www.Example.com/x'')]"
  by (cases "dedupe options"; cases "assumeHttps options") (simp_all add: line_defs)

lemma unique_query_ab:
  "unique ''http://example.com/path?a=1&b=2'' options
     = [(''http://example.com/path?a=1&b=2'', ''http://example.com/path?a=1&b=2'')]"
  by (cases "dedupe options"; cases "assumeHttps options") (simp_all add: line_defs)

lemma unique_query_aa:
  "unique ''http://example.com/path?a=1&a=2'' options
     = [(''http://example.com/path?a=1&a=2'', ''http://example.com/path?a=1&a=2'')]"
  by (cases "dedupe options"; cases "assumeHttps options") (simp_all add: line_defs)

lemma unique_Example_twice:
  "unique (''Example.com'' @ [LF] @ ''example.com'') \<lparr>assumeHttps = True, dedupe = True\<rparr>
     = [(''example.com'', ''https://example.com'')]"
  by (simp add: line_defs)

lemma unique_spaces:
  "unique ''  example.com '' \<lparr>assumeHttps = True, dedupe = True\<rparr>
     = [(''example.com'', ''https://example.com'')]"
  by (simp add: line_defs)

lemma split_lines_spaces: "split_lines ''  example.com '' = [''  example.com '']"
  by (simp add: split_lines_def LF_def)

section \<open>Classifier\<close>

lemma toRow_valid:
  "URL_new e n = Inr u \<Longrightarrow>
   fst (toRow (rw, n) e) =
     \<lparr> rowId = safeId_values e (safeId_calls e), raw = rw, normalized = n, isValid = True,
       error = None,
       protocol = Some (remove1 CHR '':'' (url_protocol u)),
       hostname = (if url_hostname u \<noteq> [] then Some (url_hostname u) else None),
       domain = (if url_hostname u \<noteq> [] then Some (hostnameToDomain (url_hostname u)) else None),
       tld = (if url_hostname u \<noteq> [] then domainToTld (hostnameToDomain (url_hostname u)) else None),
       pathname = Some (url_pathname u),
       queryParams = length (url_searchParams_keys u),
       hasHash = (url_hash u \<noteq> [] \<and> length (url_hash u) > 1),
       row_length = length n \<rparr>"
  by (simp add: toRow_def safeId_def Let_def hostnameToDomain_nonempty)

lemma analyzeLinks_single:
  "unique inp options = [it] \<Longrightarrow> items (fst (analyzeLinks inp options e)) = [fst (toRow it e)]"
  by (simp add: analyzeLinks_items toRows_Cons del: toRows.simps(2))

lemma split_on_no_sep: "c \<notin> set d \<Longrightarrow> split_on c d = [d]"
  by (induction d) auto

lemma split_on_only_seps:
  "(filter (\<lambda>p. p \<noteq> []) (split_on c d) = []) = (set d \<subseteq> {c})"
  by (induction d) (auto split: list.splits)

lemma domainToTld_None: "(domainToTld d = None) = (set d \<subseteq> {CHR ''.''})"
  using split_on_only_seps [of "CHR ''.''" d] by (simp add: domainToTld_def Let_def)

lemma domainToTld_no_dot:
  "d \<noteq> [] \<Longrightarrow> CHR ''.'' \<notin> set d \<Longrightarrow> domainToTld d = Some (toLowerCase d)"
  by (simp add: domainToTld_def Let_def split_on_no_sep)

lemma domainToTld_empty: "domainToTld [] = None"
  by (simp add: domainToTld_def)

lemma toRow_tld:
  "tld (fst (toRow it e)) =
     (case domain (fst (toRow it e)) of None \<Rightarrow> None | Some d \<Rightarrow> domainToTld d)"
  by (cases "URL_new e (snd it)")
     (simp_all add: toRow_def safeId_def Let_def hostnameToDomain_nonempty)

lemma eval_nota_url:
  "hostnameToDomain ''nota-url'' = ''nota-url''"
  "domainToTld ''nota-url'' = Some ''nota-url''"
  by (simp_all add: hostnameToDomain_def domainToTld_def startsWith_def toLowerCase_def
      toLowerCase_unit_def upper_units_def lower_units_def Let_def)

lemma eval_www_example:
  "hostnameToDomain ''www.example.com'' = ''example.com''"
  "hostnameToDomain ''WWW.Example.com'' = ''Example.com''"
  "toLowerCase ''example.com'' = ''example.com''"
  "toLowerCase ''Example.com'' = ''example.com''"
  by (simp_all add: hostnameToDomain_def startsWith_def toLowerCase_def
      toLowerCase_unit_def upper_units_def lower_units_def Let_def)

text \<open>
  Counterexample to claim C4 as stated: the domain \<open>nota-url\<close> has no dot and the row's
  tld is present.
\<close>

theorem tld_of_dotless_domain_present:
  "map tld (items (fst (analyzeLinks ''nota-url'' \<lparr>assumeHttps = True, dedupe = True\<rparr> reference_env)))
     = [Some ''nota-url'']
   \<and> map domain (items (fst (analyzeLinks ''nota-url'' \<lparr>assumeHttps = True, dedupe = True\<rparr> reference_env)))
     = [Some ''nota-url'']"
proof -
  have "URL_new reference_env ''https://nota-url'' = Inr \<lparr>url_protocol = ''https:'',
        url_hostname = ''nota-url'', url_pathname = ''/'', url_searchParams_keys = [],
        url_hash = []\<rparr>"
    using conforms_reference_env URL_model_nota_url by (rule conformsD)
  then show ?thesis
    by (simp add: analyzeLinks_single [OF unique_nota_url] toRow_valid eval_nota_url)
qed

section \<open>Identifiers and row shape on concrete runs\<close>

text \<open>
  Witness for claim C1: two invocations in a row on the line \<open>nota-url\<close>, the second in
  the environment the first one leaves.
\<close>

theorem analyzeLinks_deterministic_up_to_ids_witness:
  "URL_new reference_env
     = URL_new (snd (analyzeLinks ''nota-url'' \<lparr>assumeHttps = True, dedupe = True\<rparr> reference_env))
   \<and> metrics (fst (analyzeLinks ''nota-url'' \<lparr>assumeHttps = True, dedupe = True\<rparr> reference_env))
     = metrics (fst (analyzeLinks ''nota-url'' \<lparr>assumeHttps = True, dedupe = True\<rparr>
         (snd (analyzeLinks ''nota-url'' \<lparr>assumeHttps = True, dedupe = True\<rparr> reference_env))))
   \<and> analysisId (fst (analyzeLinks ''nota-url'' \<lparr>assumeHttps = True, dedupe = True\<rparr> reference_env))
     = ''id-i''"
proof -
  have u: "URL_new reference_env
     = URL_new (snd (analyzeLinks ''nota-url'' \<lparr>assumeHttps = True, dedupe = True\<rparr> reference_env))"
    by (simp add: analyzeLinks_env)
  have v: "safeId_values reference_env (safeId_calls reference_env + 1) = ''id-i''"
    by (simp add: reference_env_def)
  have l: "length (items (fst (analyzeLinks ''nota-url'' \<lparr>assumeHttps = True, dedupe = True\<rparr>
      reference_env))) = 1"
    by (simp add: analyzeLinks_single [OF unique_nota_url])
  from analyzeLinks_deterministic_up_to_ids [OF u, of "''nota-url''"
      "\<lparr>assumeHttps = True, dedupe = True\<rparr>"] u v l
  show ?thesis by simp
qed

text \<open>
  Counterexample to claim C1 as stated: the two invocations return reports with
  different \<open>id\<close>s, as \<open>safeId\<close> returns a new identifier at every call.
\<close>

theorem analyzeLinks_ids_differ:
  "analysisId (fst (analyzeLinks ''nota-url'' \<lparr>assumeHttps = True, dedupe = True\<rparr> reference_env))
     \<noteq> analysisId (fst (analyzeLinks ''nota-url'' \<lparr>assumeHttps = True, dedupe = True\<rparr>
         (snd (analyzeLinks ''nota-url'' \<lparr>assumeHttps = True, dedupe = True\<rparr> reference_env))))"
  by (simp add: analyzeLinks_ids analyzeLinks_env unique_nota_url reference_env_def)

text \<open>
  Counterexample to claim C5 as stated: the row of \<open>mailto:x\<close> is valid and has no
  \<open>error\<close>, and it has no \<open>hostname\<close>, \<open>domain\<close> or \<open>tld\<close> either, so neither
  alternative of the claim holds.
\<close>

theorem valid_row_without_hostname:
  "map (\<lambda>r. (isValid r, error r, hostname r, domain r, tld r))
     (items (fst (analyzeLinks ''mailto:x'' \<lparr>assumeHttps = True, dedupe = True\<rparr> reference_env)))
   = [(True, None, None, None, None)]"
proof -
  have "URL_new reference_env ''mailto:x'' = Inr \<lparr>url_protocol = ''mailto:'',
      url_hostname = [], url_pathname = ''x'', url_searchParams_keys = [], url_hash = []\<rparr>"
    using conforms_reference_env URL_model_mailto by (rule conformsD)
  then show ?thesis
    by (simp add: analyzeLinks_single [OF unique_mailto] toRow_valid)
qed

section \<open>Domains and query parameters\<close>

lemma startsWith_www:
  "startsWith (toLowerCase (take 4 h)) ''www.'' = (toLowerCase (take 4 h) = ''www.'')"
proof -
  have 1: "length ''www.'' = 4" by simp
  have 2: "take 4 (toLowerCase (take 4 h)) = toLowerCase (take 4 h)"
    by (simp add: toLowerCase_def)
  show ?thesis unfolding startsWith_def by (simp only: 1 2)
qed

lemma hostnameToDomain_alt:
  "hostnameToDomain h =
     (if toLowerCase (take 4 h) = ''www.'' \<and> 4 < length h then drop 4 h else h)"
proof -
  have len: "4 \<le> length h" if w: "toLowerCase (take 4 h) = ''www.''"
  proof -
    from w have "length (toLowerCase (take 4 h)) = length ''www.''" by (rule arg_cong)
    then have "min (length h) 4 = 4" by (simp add: toLowerCase_def)
    then show ?thesis by simp
  qed
  show ?thesis
  proof (cases "toLowerCase (take 4 h) = ''www.''")
    case True
    have sw: "startsWith (toLowerCase (take 4 h)) ''www.''"
      by (rule iffD2 [OF startsWith_www True])
    have "hostnameToDomain h = (if length (drop 4 h) \<noteq> 0 then drop 4 h else h)"
      unfolding hostnameToDomain_def Let_def by (simp only: sw if_True)
    with True len [OF True] show ?thesis by auto
  next
    case False
    then show ?thesis
      by (simp add: hostnameToDomain_def startsWith_www Let_def)
  qed
qed

lemma inc_fresh:
  "inc [] k = (if k = ''__proto__'' then []
               else if k \<in> set Object_prototype_keys then [(k, Text)] else [(k, Count 1)])"
  by (simp add: inc_def)

text \<open>
  Counterexample to claim C7 as stated: the row's domain is not \<open>Example.com\<close>.
\<close>

theorem domain_case_not_preserved:
  "map domain (items (fst (analyzeLinks ''https://www.Example.com/x''
        \<lparr>assumeHttps = True, dedupe = True\<rparr> reference_env))) \<noteq> [Some ''Example.com'']"
proof -
  have u: "URL_new reference_env ''https://www.Example.com/x'' = Inr \<lparr>url_protocol = ''https:'',
        url_hostname = ''www.example.com'', url_pathname = ''/x'', url_searchParams_keys = [],
        url_hash = []\<rparr>"
    using conforms_reference_env URL_model_www_Example by (rule conformsD)
  show ?thesis
    by (simp add: analyzeLinks_single [OF unique_www_Example] toRow_valid [OF u] eval_www_example)
qed

text \<open>
  Claim C8: \<open>queryParams\<close> is the number of keys the parser iterates, one for each
  key/value pair: under a URL constructor that conforms to the model, both
  \<open>http://example.com/path?a=1&b=2\<close> and \<open>http://example.com/path?a=1&a=2\<close> give
  \<open>queryParams = 2\<close>, the keys of the second being \<open>a\<close> and \<open>a\<close>.
\<close>

theorem queryParams_counts_pairs:
  "(conforms (URL_new e) \<longrightarrow>
      map queryParams (items (fst (analyzeLinks ''http://example.com/path?a=1&b=2'' options e))) = [2]
      \<and> map queryParams (items (fst (analyzeLinks ''http://example.com/path?a=1&a=2'' options e))) = [2])
   \<and> (URL_new e n = Inr u \<longrightarrow> queryParams (fst (toRow (rw, n) e)) = length (url_searchParams_keys u))
   \<and> map_option url_searchParams_keys (URL_model ''http://example.com/path?a=1&a=2'')
       = Some [''a'', ''a'']"
proof -
  have 1: "map queryParams (items (fst (analyzeLinks ''http://example.com/path?a=1&b=2'' options e))) = [2]
      \<and> map queryParams (items (fst (analyzeLinks ''http://example.com/path?a=1&a=2'' options e))) = [2]"
    if c: "conforms (URL_new e)"
  proof -
    have ab: "URL_new e ''http://example.com/path?a=1&b=2'' = Inr \<lparr>url_protocol = ''http:'',
        url_hostname = ''example.com'', url_pathname = ''/path'',
        url_searchParams_keys = [''a'', ''b''], url_hash = []\<rparr>"
      using c URL_model_query_ab by (rule conformsD)
    have aa: "URL_new e ''http://example.com/path?a=1&a=2'' = Inr \<lparr>url_protocol = ''http:'',
        url_hostname = ''example.com'', url_pathname = ''/path'',
        url_searchParams_keys = [''a'', ''a''], url_hash = []\<rparr>"
      using c URL_model_query_aa by (rule conformsD)
    show ?thesis
      by (simp add: analyzeLinks_single [OF unique_query_ab] analyzeLinks_single [OF unique_query_aa]
          toRow_valid [OF ab] toRow_valid [OF aa])
  qed
  have 2: "URL_new e n = Inr u \<longrightarrow> queryParams (fst (toRow (rw, n) e)) = length (url_searchParams_keys u)"
    by (simp add: toRow_valid)
  have 3: "map_option url_searchParams_keys (URL_model ''http://example.com/path?a=1&a=2'')
       = Some [''a'', ''a'']"
    by (simp add: URL_model_query_aa)
  from 1 2 3 show ?thesis by blast
qed

text \<open>Witness for claim C8: the two URLs in the reference environment.\<close>

theorem queryParams_counts_pairs_witness:
  "conforms (URL_new reference_env)
   \<and> map queryParams (items (fst (analyzeLinks ''http://example.com/path?a=1&a=2''
        \<lparr>assumeHttps = True, dedupe = True\<rparr> reference_env))) = [2]
   \<and> map queryParams (items (fst (analyzeLinks ''http://example.com/path?a=1&b=2''
        \<lparr>assumeHttps = False, dedupe = False\<rparr> reference_env))) = [2]"
proof -
  have c: "conforms (URL_new reference_env)" by (rule conforms_reference_env)
  from queryParams_counts_pairs [of reference_env "\<lparr>assumeHttps = True, dedupe = True\<rparr>"] c
  have 1: "map queryParams (items (fst (analyzeLinks ''http://example.com/path?a=1&a=2''
        \<lparr>assumeHttps = True, dedupe = True\<rparr> reference_env))) = [2]"
    by blast
  from queryParams_counts_pairs [of reference_env "\<lparr>assumeHttps = False, dedupe = False\<rparr>"] c
  have 2: "map queryParams (items (fst (analyzeLinks ''http://example.com/path?a=1&b=2''
        \<lparr>assumeHttps = False, dedupe = False\<rparr> reference_env))) = [2]"
    by blast
  from c 1 2 show ?thesis by simp
qed

section \<open>Properties of the deduplicator\<close>

lemma set_own_keys:
  "map fst (set_own k v m) = (if k \<in> set (map fst m) then map fst m else map fst m @ [k])"
  by (induction m) auto

lemma set_own_map_of: "map_of (set_own k v m) = (map_of m)(k \<mapsto> v)"
  by (induction m) (auto simp: fun_eq_iff)

lemma set_own_distinct: "distinct (map fst m) \<Longrightarrow> distinct (map fst (set_own k v m))"
  by (simp add: set_own_keys)

lemma foldl_set_own_keys:
  "map fst (foldl (\<lambda>m (k, v). set_own k v m) m es)
     = map fst m @ rev (remdups (rev (filter (\<lambda>k. k \<notin> set (map fst m)) (map fst es))))"
proof (induction es arbitrary: m)
  case Nil
  show ?case by simp
next
  case (Cons a es)
  obtain k v where a: "a = (k, v)" by (cases a)
  show ?case
  proof (cases "k \<in> set (map fst m)")
    case True
    then have "map fst (set_own k v m) = map fst m" by (simp add: set_own_keys)
    with True show ?thesis by (simp add: a Cons.IH)
  next
    case False
    then have keys: "map fst (set_own k v m) = map fst m @ [k]" by (simp add: set_own_keys)
    have f: "filter (\<lambda>x. x \<notin> set (map fst m @ [k])) (map fst es)
        = removeAll k (filter (\<lambda>x. x \<notin> set (map fst m)) (map fst es))"
      by (induction es) auto
    have r: "rev (remdups (rev (k # xs))) = k # rev (remdups (rev (removeAll k xs)))" for xs :: "string list"
    proof -
      have "remdups (ys @ [k]) = remdups (removeAll k ys) @ [k]" for ys :: "string list"
        by (induction ys) auto
      moreover have "rev (removeAll k xs) = removeAll k (rev xs)"
        by (simp add: removeAll_filter_not_eq rev_filter)
      ultimately show ?thesis by simp
    qed
    have "map fst (foldl (\<lambda>m (k, v). set_own k v m) m (a # es))
        = map fst (set_own k v m) @ rev (remdups (rev (filter (\<lambda>x. x \<notin> set (map fst (set_own k v m))) (map fst es))))"
      by (simp add: a Cons.IH)
    also have "\<dots> = map fst m @ k # rev (remdups (rev (removeAll k (filter (\<lambda>x. x \<notin> set (map fst m)) (map fst es)))))"
      by (simp only: keys f append_assoc append_Cons append_Nil)
    also have "\<dots> = map fst m @ rev (remdups (rev (filter (\<lambda>x. x \<notin> set (map fst m)) (map fst (a # es)))))"
      using False by (simp add: a r del: rev.simps)
    finally show ?thesis .
  qed
qed

lemma foldl_set_own_map_of:
  "map_of (foldl (\<lambda>m (k, v). set_own k v m) m es) = map_of m ++ map_of (rev es)"
proof (induction es arbitrary: m)
  case Nil
  show ?case by simp
next
  case (Cons a es)
  obtain k v where a: "a = (k, v)" by (cases a)
  have "foldl (\<lambda>m (k, v). set_own k v m) m (a # es)
      = foldl (\<lambda>m (k, v). set_own k v m) (set_own k v m) es"
    by (simp add: a)
  then have "map_of (foldl (\<lambda>m (k, v). set_own k v m) m (a # es))
      = map_of (set_own k v m) ++ map_of (rev es)"
    by (simp only: Cons.IH)
  also have "\<dots> = (map_of m)(k \<mapsto> v) ++ map_of (rev es)"
    by (simp only: set_own_map_of)
  also have "\<dots> = map_of m ++ map_of (rev (a # es))"
    by (simp add: a fun_eq_iff map_add_def split: option.splits)
  finally show ?case .
qed

lemma foldl_set_own_distinct:
  "distinct (map fst m) \<Longrightarrow> distinct (map fst (foldl (\<lambda>m (k, v). set_own k v m) m es))"
proof (induction es arbitrary: m)
  case Nil
  then show ?case by simp
next
  case (Cons a es)
  obtain k v where a: "a = (k, v)" by (cases a)
  from Cons.prems have "distinct (map fst (set_own k v m))" by (rule set_own_distinct)
  then show ?case by (simp add: a Cons.IH)
qed

lemma Map_new_keys: "map fst (Map_new es) = rev (remdups (rev (map fst es)))"
  using foldl_set_own_keys [of "[]" es] by (simp add: Map_new_def)

lemma Map_new_map_of: "map_of (Map_new es) = map_of (rev es)"
  using foldl_set_own_map_of [of "[]" es] by (simp add: Map_new_def)

lemma Map_new_distinct: "distinct (map fst (Map_new es))"
  using foldl_set_own_distinct [of "[]" es] by (simp add: Map_new_def)

lemma map_of_rev_keyed:
  "map_of (rev (map (\<lambda>x. (f x, x)) xs)) k =
     (if filter (\<lambda>x. f x = k) xs = [] then None else Some (last (filter (\<lambda>x. f x = k) xs)))"
proof (induction xs)
  case Nil
  show ?case by simp
next
  case (Cons x xs)
  show ?case
    by (simp add: Cons.IH map_add_def split: option.splits)
qed

lemma Map_new_keyed_entries:
  assumes "(k, p) \<in> set (Map_new (map (\<lambda>x. (f x, x)) xs))"
  shows "f p = k \<and> p \<in> set xs \<and> p = last (filter (\<lambda>x. f x = k) xs)"
proof -
  have "distinct (map fst (Map_new (map (\<lambda>x. (f x, x)) xs)))"
    by (rule Map_new_distinct)
  with assms have "map_of (Map_new (map (\<lambda>x. (f x, x)) xs)) k = Some p"
    by (simp only: map_of_eq_Some_iff)
  then have m: "map_of (rev (map (\<lambda>x. (f x, x)) xs)) k = Some p"
    by (simp only: Map_new_map_of)
  then have ne: "filter (\<lambda>x. f x = k) xs \<noteq> []" and p: "p = last (filter (\<lambda>x. f x = k) xs)"
    by (simp_all add: map_of_rev_keyed split: if_splits)
  from ne have "last (filter (\<lambda>x. f x = k) xs) \<in> set (filter (\<lambda>x. f x = k) xs)"
    by (rule last_in_set)
  with p show ?thesis by simp
qed

lemma toRows_pairs: "map (\<lambda>r. (raw r, normalized r)) (fst (toRows its e)) = its"
proof (induction its arbitrary: e)
  case Nil
  show ?case by simp
next
  case (Cons it its)
  have "(raw (fst (toRow it e)), normalized (fst (toRow it e))) = it"
    by (simp add: toRow_def safeId_def Let_def split: sum.splits)
  then show ?case by (simp add: toRows_Cons Cons.IH del: toRows.simps(2))
qed

lemma analyzeLinks_pairs:
  "map (\<lambda>r. (raw r, normalized r)) (items (fst (analyzeLinks inp options e))) = unique inp options"
  by (simp only: analyzeLinks_items toRows_pairs)

lemma Map_values_keys:
  "map f (Map_values (Map_new (map (\<lambda>x. (f x, x)) xs))) = rev (remdups (rev (map f xs)))"
proof -
  let ?M = "Map_new (map (\<lambda>x. (f x, x)) xs)"
  have "\<forall>en \<in> set ?M. f (snd en) = fst en"
  proof
    fix en
    assume "en \<in> set ?M"
    then have "(fst en, snd en) \<in> set ?M" by simp
    from Map_new_keyed_entries [OF this] show "f (snd en) = fst en" by (rule conjunct1)
  qed
  then have "map f (map snd ?M) = map fst ?M" by simp
  also have "\<dots> = rev (remdups (rev (map fst (map (\<lambda>x. (f x, x)) xs))))"
    by (rule Map_new_keys)
  also have "map fst (map (\<lambda>x. (f x, x)) xs) = map f xs"
    by (simp add: comp_def)
  finally show ?thesis by (simp only: Map_values_def)
qed

lemma Map_values_last:
  assumes "p \<in> set (Map_values (Map_new (map (\<lambda>x. (f x, x)) xs)))"
  shows "p \<in> set xs \<and> p = last (filter (\<lambda>x. f x = f p) xs)"
proof -
  from assms obtain k where en: "(k, p) \<in> set (Map_new (map (\<lambda>x. (f x, x)) xs))"
    by (auto simp: Map_values_def)
  note K = Map_new_keyed_entries [OF en]
  from K have fk: "f p = k" by (rule conjunct1)
  show ?thesis unfolding fk using K by blast
qed

text \<open>
  Claim C3, as amended: when \<open>dedupe\<close> is set, the items hold one pair for each distinct
  lower-cased normalized value, in the order in which these values first occur, and
  the pair kept for a value is the one of its LAST occurrence (a \<open>Map\<close> keeps the place
  of a key's first insertion and the value of its last). The input lines
  \<open>Example.com\<close> and \<open>example.com\<close> with \<open>assumeHttps\<close> set collapse to a single item,
  whose raw text is \<open>example.com\<close>, that of the second line.
\<close>

theorem dedupe_keeps_last_pair:
  assumes "dedupe options"
  shows "map (\<lambda>p. toLowerCase (snd p))
           (map (\<lambda>r. (raw r, normalized r)) (items (fst (analyzeLinks inp options e))))
         = rev (remdups (rev (map (\<lambda>p. toLowerCase (snd p)) (normalizedList inp options))))
    \<and> (\<forall>p \<in> set (map (\<lambda>r. (raw r, normalized r)) (items (fst (analyzeLinks inp options e)))).
          p = last (filter (\<lambda>q. toLowerCase (snd q) = toLowerCase (snd p))
                      (normalizedList inp options)))
    \<and> map raw (items (fst (analyzeLinks (''Example.com'' @ [LF] @ ''example.com'')
          \<lparr>assumeHttps = True, dedupe = True\<rparr> e))) = [''example.com'']"
proof -
  have u: "unique inp options
      = Map_values (Map_new (map (\<lambda>it. (toLowerCase (snd it), it)) (normalizedList inp options)))"
    using assms by (simp add: unique_def)
  have 1: "map (\<lambda>p. toLowerCase (snd p))
           (map (\<lambda>r. (raw r, normalized r)) (items (fst (analyzeLinks inp options e))))
         = rev (remdups (rev (map (\<lambda>p. toLowerCase (snd p)) (normalizedList inp options))))"
    by (simp only: analyzeLinks_pairs u Map_values_keys)
  have 2: "\<forall>p \<in> set (map (\<lambda>r. (raw r, normalized r)) (items (fst (analyzeLinks inp options e)))).
          p = last (filter (\<lambda>q. toLowerCase (snd q) = toLowerCase (snd p))
                      (normalizedList inp options))"
    unfolding analyzeLinks_pairs u
  proof
    fix p
    assume "p \<in> set (Map_values (Map_new (map (\<lambda>it. (toLowerCase (snd it), it))
        (normalizedList inp options))))"
    from Map_values_last [of p "\<lambda>it. toLowerCase (snd it)" "normalizedList inp options", OF this]
    show "p = last (filter (\<lambda>q. toLowerCase (snd q) = toLowerCase (snd p))
        (normalizedList inp options))"
      by blast
  qed
  have 3: "map raw (items (fst (analyzeLinks (''Example.com'' @ [LF] @ ''example.com'')
          \<lparr>assumeHttps = True, dedupe = True\<rparr> e))) = [''example.com'']"
    by (simp only: analyzeLinks_items toRows_raw unique_Example_twice) simp
  from 1 2 3 show ?thesis by blast
qed

text \<open>Witness for claim C3: the two lines \<open>Example.com\<close> and \<open>example.com\<close>.\<close>

theorem dedupe_keeps_last_pair_witness:
  "dedupe \<lparr>assumeHttps = True, dedupe = True\<rparr>
   \<and> map raw (items (fst (analyzeLinks (''Example.com'' @ [LF] @ ''example.com'')
          \<lparr>assumeHttps = True, dedupe = True\<rparr> reference_env))) = [''example.com'']
   \<and> map (\<lambda>p. toLowerCase (snd p)) (normalizedList (''Example.com'' @ [LF] @ ''example.com'')
          \<lparr>assumeHttps = True, dedupe = True\<rparr>) = [''https://example.com'', ''https://example.com'']"
proof -
  have d: "dedupe \<lparr>assumeHttps = True, dedupe = True\<rparr>" by simp
  have n: "map (\<lambda>p. toLowerCase (snd p)) (normalizedList (''Example.com'' @ [LF] @ ''example.com'')
          \<lparr>assumeHttps = True, dedupe = True\<rparr>) = [''https://example.com'', ''https://example.com'']"
    by (simp add: line_defs)
  from dedupe_keeps_last_pair [where options = "\<lparr>assumeHttps = True, dedupe = True\<rparr>"
      and inp = "''Example.com'' @ [LF] @ ''example.com''" and e = reference_env, OF d] d n
  show ?thesis by blast
qed

text \<open>
  Counterexample to claim C3 as stated: the raw text of the single item is not that of
  the first occurrence.
\<close>

theorem dedupe_first_raw_lost:
  "map raw (items (fst (analyzeLinks (''Example.com'' @ [LF] @ ''example.com'')
      \<lparr>assumeHttps = True, dedupe = True\<rparr> reference_env))) \<noteq> [''Example.com'']"
  by (simp only: analyzeLinks_items toRows_raw unique_Example_twice) simp

lemma unique_subset: "set (unique inp options) \<subseteq> set (normalizedList inp options)"
proof (cases "dedupe options")
  case True
  show ?thesis
  proof
    fix p
    assume "p \<in> set (unique inp options)"
    with True have "p \<in> set (Map_values (Map_new (map (\<lambda>it. (toLowerCase (snd it), it))
        (normalizedList inp options))))"
      by (simp add: unique_def)
    from Map_values_last [of p "\<lambda>it. toLowerCase (snd it)" "normalizedList inp options", OF this]
    show "p \<in> set (normalizedList inp options)" by blast
  qed
next
  case False
  then show ?thesis by (simp add: unique_def)
qed

lemma input_lines_trimmed:
  "l \<in> set (input_lines inp) \<Longrightarrow> l \<noteq> [] \<and> l \<in> trim ` set (split_lines inp)"
  by (auto simp: input_lines_def)

text \<open>
  Claim C6, as amended: the \<open>raw\<close> field of a row is the text of an input line with its
  leading and trailing white space removed, and is never empty. Without \<open>dedupe\<close> the
  raw fields are, in order, the trimmed non-blank lines of the input.
\<close>

theorem raw_is_trimmed_line:
  "(\<not> dedupe options \<longrightarrow>
      map raw (items (fst (analyzeLinks inp options e)))
        = filter (\<lambda>l. l \<noteq> []) (map trim (split_lines inp)))
   \<and> (\<forall>r \<in> set (items (fst (analyzeLinks inp options e))).
        raw r \<noteq> [] \<and> raw r \<in> trim ` set (split_lines inp))"
proof -
  have r: "map raw (items (fst (analyzeLinks inp options e))) = map fst (unique inp options)"
    by (simp only: analyzeLinks_items toRows_raw)
  have 1: "map raw (items (fst (analyzeLinks inp options e)))
        = filter (\<lambda>l. l \<noteq> []) (map trim (split_lines inp))" if "\<not> dedupe options"
    using that by (simp add: r unique_def normalizedList_def input_lines_def comp_def)
  have 2: "\<forall>r \<in> set (items (fst (analyzeLinks inp options e))).
        raw r \<noteq> [] \<and> raw r \<in> trim ` set (split_lines inp)"
  proof
    fix x
    assume "x \<in> set (items (fst (analyzeLinks inp options e)))"
    then have "raw x \<in> set (map raw (items (fst (analyzeLinks inp options e))))" by simp
    then have "raw x \<in> fst ` set (unique inp options)" by (simp only: r set_map)
    with unique_subset have "raw x \<in> fst ` set (normalizedList inp options)" by blast
    then have "raw x \<in> set (input_lines inp)"
      by (auto simp: normalizedList_def)
    then show "raw x \<noteq> [] \<and> raw x \<in> trim ` set (split_lines inp)"
      by (rule input_lines_trimmed)
  qed
  from 1 2 show ?thesis by blast
qed

lemma unique_spaces_plain:
  "unique ''  example.com '' \<lparr>assumeHttps = True, dedupe = False\<rparr>
     = [(''example.com'', ''https://example.com'')]"
  by (simp add: line_defs)

text \<open>Witness for claim C6: one line with white space around it.\<close>

theorem raw_is_trimmed_line_witness:
  "\<not> dedupe \<lparr>assumeHttps = True, dedupe = False\<rparr>
   \<and> map raw (items (fst (analyzeLinks ''  example.com ''
        \<lparr>assumeHttps = True, dedupe = False\<rparr> reference_env)))
     = map trim (split_lines ''  example.com '')
   \<and> map trim (split_lines ''  example.com '') = [''example.com'']"
proof -
  have d: "\<not> dedupe \<lparr>assumeHttps = True, dedupe = False\<rparr>" by simp
  have t: "map trim (split_lines ''  example.com '') = [''example.com'']"
    by (simp add: split_lines_spaces trim_def isWhiteSpace_def)
  from raw_is_trimmed_line [of "\<lparr>assumeHttps = True, dedupe = False\<rparr>" "''  example.com ''"
      reference_env] d
  have "map raw (items (fst (analyzeLinks ''  example.com ''
        \<lparr>assumeHttps = True, dedupe = False\<rparr> reference_env)))
     = filter (\<lambda>l. l \<noteq> []) (map trim (split_lines ''  example.com ''))"
    by blast
  with d t show ?thesis by simp
qed

text \<open>
  Counterexample to claim C6 as stated: the raw field is not the input line, which
  starts with two spaces and ends with one.
\<close>

theorem raw_loses_surrounding_space:
  "map raw (items (fst (analyzeLinks ''  example.com ''
      \<lparr>assumeHttps = True, dedupe = True\<rparr> reference_env)))
     \<noteq> split_lines ''  example.com ''"
  by (simp only: analyzeLinks_items toRows_raw unique_spaces split_lines_spaces) simp

section \<open>Division and the average length\<close>

lemma pow2_powi: "pow2 k = 2 powi k"
  by (simp add: pow2_def power_int_def inverse_eq_divide power_one_over)

lemma pow2_pos: "0 < pow2 k"
  by (simp add: pow2_powi)

lemma pow2_Suc: "pow2 (k + 1) = 2 * pow2 k"
  by (simp add: pow2_powi power_int_add)

lemma round_half_even_close: "\<bar>of_int (round_half_even x) - x\<bar> \<le> 1 / 2"
proof -
  have "of_int \<lfloor>x\<rfloor> \<le> x" "x < of_int \<lfloor>x\<rfloor> + 1" by linarith+
  then show ?thesis
    by (auto simp: round_half_even_def Let_def)
qed

lemma bit_length_bounds:
  "0 < n \<Longrightarrow> 2 ^ (bit_length n - 1) \<le> n \<and> n < 2 ^ bit_length n"
proof (induction n rule: bit_length.induct)
  case (1 n)
  show ?case
  proof (cases "n div 2 = 0")
    case True
    with "1.prems" have n1: "n = Suc 0" by (simp add: div_eq_0_iff)
    have "bit_length (Suc 0) = Suc 0"
      by (simp add: bit_length.simps [of "Suc 0"] bit_length.simps [of 0])
    with n1 show ?thesis by simp
  next
    case False
    then have pos: "0 < n div 2" by simp
    from "1.prems" have n0: "n \<noteq> 0" by simp
    from "1.IH" [OF n0 pos] have IH: "2 ^ (bit_length (n div 2) - 1) \<le> n div 2"
        "n div 2 < 2 ^ bit_length (n div 2)" by simp_all
    have bl: "bit_length n = Suc (bit_length (n div 2))"
      using n0 by (simp add: bit_length.simps [of n])
    have blpos: "0 < bit_length (n div 2)"
      using pos by (simp add: bit_length.simps [of "n div 2"])
    then obtain j where j: "bit_length (n div 2) = Suc j" by (cases "bit_length (n div 2)") auto
    from IH(1) have "2 * 2 ^ j \<le> 2 * (n div 2)" by (simp add: j)
    also have "\<dots> \<le> n" by simp
    finally have lo: "2 ^ (bit_length n - 1) \<le> n" by (simp add: bl j)
    from IH(2) have "n div 2 + 1 \<le> 2 ^ bit_length (n div 2)" by simp
    then have "2 * (n div 2) + 2 \<le> 2 * 2 ^ bit_length (n div 2)" by simp
    moreover have "n < 2 * (n div 2) + 2" by simp
    ultimately have hi: "n < 2 ^ bit_length n" by (simp add: bl)
    from lo hi show ?thesis by simp
  qed
qed

lemma bit_length_pos: "0 < n \<Longrightarrow> 0 < bit_length n"
  by (simp add: bit_length.simps [of n])

lemma binade_bounds:
  assumes a: "0 < a" and b: "0 < b"
  shows "pow2 (binade a b) \<le> of_nat a / of_nat b \<and> of_nat a / of_nat b < pow2 (binade a b + 1)"
proof -
  let ?la = "bit_length a" and ?lb = "bit_length b"
  let ?k = "int ?la - int ?lb"
  have bpos: "(0::rat) < of_nat b" using b by simp
  from bit_length_bounds [OF a] have a1: "(2::rat) ^ (?la - 1) \<le> of_nat a" and a2: "(of_nat a :: rat) < 2 ^ ?la"
    by (metis of_nat_le_iff of_nat_numeral of_nat_power, metis of_nat_less_iff of_nat_numeral of_nat_power)
  from bit_length_bounds [OF b] have b1: "(2::rat) ^ (?lb - 1) \<le> of_nat b" and b2: "(of_nat b :: rat) < 2 ^ ?lb"
    by (metis of_nat_le_iff of_nat_numeral of_nat_power, metis of_nat_less_iff of_nat_numeral of_nat_power)
  have la: "int (?la - 1) = int ?la - 1" using bit_length_pos [OF a] by simp
  have lb: "int (?lb - 1) = int ?lb - 1" using bit_length_pos [OF b] by simp
  have A1: "pow2 (int ?la - 1) \<le> of_nat a" using a1 by (simp add: pow2_powi la [symmetric])
  have A2: "of_nat a < pow2 (int ?la)" using a2 by (simp add: pow2_powi)
  have B1: "pow2 (int ?lb - 1) \<le> of_nat b" using b1 by (simp add: pow2_powi lb [symmetric])
  have B2: "of_nat b < pow2 (int ?lb)" using b2 by (simp add: pow2_powi)
  have split1: "pow2 (?k + 1) * pow2 (int ?lb - 1) = pow2 (int ?la)"
    by (simp add: pow2_powi power_int_add [symmetric])
  have split2: "pow2 (?k - 1) * pow2 (int ?lb) = pow2 (int ?la - 1)"
    unfolding pow2_powi using power_int_add [of "2::rat" "?k - 1" "int ?lb"] by simp
  show ?thesis
  proof (cases "of_nat b * pow2 ?k \<le> (of_nat a :: rat)")
    case True
    then have bin: "binade a b = ?k" by (simp add: binade_def Let_def)
    from True bpos have lo: "pow2 ?k \<le> of_nat a / of_nat b"
      by (simp add: pos_le_divide_eq mult.commute)
    have "of_nat a < pow2 (?k + 1) * pow2 (int ?lb - 1)" using A2 split1 by simp
    also have "\<dots> \<le> pow2 (?k + 1) * of_nat b"
      using B1 pow2_pos [of "?k + 1"] by (simp add: mult_left_mono)
    finally have "of_nat a / of_nat b < pow2 (?k + 1)"
      using bpos by (simp add: pos_divide_less_eq)
    with lo bin show ?thesis by simp
  next
    case False
    then have bin: "binade a b = ?k - 1" by (simp add: binade_def Let_def)
    from False bpos have hi: "of_nat a / of_nat b < pow2 ?k"
      by (simp add: pos_divide_less_eq mult.commute not_le)
    have "pow2 (?k - 1) * of_nat b \<le> pow2 (?k - 1) * pow2 (int ?lb)"
      using B2 pow2_pos [of "?k - 1"] by (simp add: mult_left_mono less_imp_le)
    also have "\<dots> \<le> of_nat a" using A1 split2 by simp
    finally have "pow2 (?k - 1) \<le> of_nat a / of_nat b"
      using bpos by (simp add: pos_le_divide_eq)
    with hi bin show ?thesis by simp
  qed
qed

lemma js_div_not_NaN: "b \<noteq> 0 \<Longrightarrow> js_div a b \<noteq> NaN"
  by (simp add: js_div_def Let_def)

lemma js_div_close:
  assumes "js_div a b = Finite q" and "b \<noteq> 0"
  shows "\<bar>q - of_nat a / of_nat b\<bar> \<le> pow2 (max (binade a b) (- 1022) - 53)"
proof (cases "a = 0")
  case True
  with assms have "q = 0" by (simp add: js_div_def)
  with True show ?thesis using pow2_pos [of "max (binade 0 b) (- 1022) - 53"] by simp
next
  case False
  let ?ulp = "pow2 (max (binade a b) (- 1022) - 52)"
  let ?x = "of_nat a / of_nat b :: rat"
  have up: "0 < ?ulp" by (rule pow2_pos)
  from assms False have q: "q = of_int (round_half_even (?x / ?ulp)) * ?ulp"
    by (simp add: js_div_def Let_def split: if_splits)
  have "\<bar>q - ?x\<bar> = \<bar>of_int (round_half_even (?x / ?ulp)) - ?x / ?ulp\<bar> * ?ulp"
  proof -
    have "q - ?x = (of_int (round_half_even (?x / ?ulp)) - ?x / ?ulp) * ?ulp"
      using up by (simp add: q left_diff_distrib)
    then show ?thesis using up by (simp add: abs_mult)
  qed
  also have "\<dots> \<le> 1 / 2 * ?ulp"
    using round_half_even_close [of "?x / ?ulp"] up by (simp add: mult_right_mono)
  also have "1 / 2 * ?ulp = pow2 (max (binade a b) (- 1022) - 53)"
    using pow2_Suc [of "max (binade a b) (- 1022) - 53"] by simp
  finally show ?thesis .
qed

lemma js_div_49_3: "js_div 49 3 = Finite (4597424619607381 / 2 ^ 48)"
  by code_simp

lemma toRows_row_length: "map row_length (fst (toRows its e)) = map (\<lambda>it. length (snd it)) its"
proof (induction its arbitrary: e)
  case Nil
  show ?case by simp
next
  case (Cons it its)
  have "row_length (fst (toRow it e)) = length (snd it)"
    by (simp add: toRow_def safeId_def Let_def split: sum.splits)
  then show ?case by (simp add: toRows_Cons Cons.IH del: toRows.simps(2))
qed

lemma unique_three_lines:
  "unique (''http://abc.def'' @ [LF] @ ''http://abcde.fgh'' @ [LF] @ ''https://example.com'')
     \<lparr>assumeHttps = False, dedupe = False\<rparr>
   = [(''http://abc.def'', ''http://abc.def''), (''http://abcde.fgh'', ''http://abcde.fgh''),
      (''https://example.com'', ''https://example.com'')]"
  by (simp add: line_defs)

lemma binade_49_3: "binade 49 3 = 4"
  by code_simp

lemma avgLength_sum:
  "avgLength (metrics (fst (analyzeLinks inp options e))) =
     (if total (metrics (fst (analyzeLinks inp options e))) = 0 then Finite 0
      else js_div (sum_list (map row_length (items (fst (analyzeLinks inp options e)))))
             (total (metrics (fst (analyzeLinks inp options e)))))"
  using tally_lengthSum [of tally0 "fst (toRows (unique inp options) e)"]
  by (simp add: analyzeLinks_metrics analyzeLinks_items Let_def tally0_def)

text \<open>
  Claim C9: \<open>avgLength\<close> is the sum of the items' lengths divided by \<open>total\<close>, by the
  division of the language (the double nearest to the quotient, within half a unit in
  the last place of it), and exactly 0 when \<open>total\<close> is 0: the division is guarded, and
  \<open>avgLength\<close> is never the \<open>NaN\<close> of \<open>0 / 0\<close>. For the empty input with \<open>assumeHttps\<close> and
  \<open>dedupe\<close> set, \<open>items\<close> is empty, \<open>total\<close> and \<open>avgLength\<close> are 0 and the three
  distributions are empty. Three lines of lengths 14, 16 and 19 give the double
  \<open>16.333333333333332\<close>, which is \<open>4597424619607381 / 2 ^ 48\<close>.
\<close>

theorem avgLength_guarded:
  "avgLength (metrics (fst (analyzeLinks inp options e))) =
     (if total (metrics (fst (analyzeLinks inp options e))) = 0 then Finite 0
      else js_div (sum_list (map row_length (items (fst (analyzeLinks inp options e)))))
             (total (metrics (fst (analyzeLinks inp options e)))))
   \<and> avgLength (metrics (fst (analyzeLinks inp options e))) \<noteq> NaN
   \<and> (\<forall>q. avgLength (metrics (fst (analyzeLinks inp options e))) = Finite q \<longrightarrow>
         \<bar>q - of_nat (sum_list (map row_length (items (fst (analyzeLinks inp options e)))))
               / of_nat (total (metrics (fst (analyzeLinks inp options e))))\<bar>
         \<le> (if total (metrics (fst (analyzeLinks inp options e))) = 0 then 0
             else pow2 (max (binade (sum_list (map row_length (items (fst (analyzeLinks inp options e)))))
                               (total (metrics (fst (analyzeLinks inp options e))))) (- 1022) - 53)))
   \<and> (0 < a \<and> 0 < b \<longrightarrow>
         pow2 (binade a b) \<le> of_nat a / of_nat b \<and> of_nat a / of_nat b < pow2 (binade a b + 1))
   \<and> items (fst (analyzeLinks [] \<lparr>assumeHttps = True, dedupe = True\<rparr> e)) = []
   \<and> total (metrics (fst (analyzeLinks [] \<lparr>assumeHttps = True, dedupe = True\<rparr> e))) = 0
   \<and> avgLength (metrics (fst (analyzeLinks [] \<lparr>assumeHttps = True, dedupe = True\<rparr> e))) = Finite 0
   \<and> distributions (fst (analyzeLinks [] \<lparr>assumeHttps = True, dedupe = True\<rparr> e))
       = \<lparr> protocolDist = [], domainDist = [], tldDist = [] \<rparr>
   \<and> avgLength (metrics (fst (analyzeLinks
         (''http://abc.def'' @ [LF] @ ''http://abcde.fgh'' @ [LF] @ ''https://example.com'')
         \<lparr>assumeHttps = False, dedupe = False\<rparr> e)))
       = Finite (4597424619607381 / 2 ^ 48)"
proof -
  let ?R = "fst (analyzeLinks inp options e)"
  let ?s = "sum_list (map row_length (items ?R))"
  let ?n = "total (metrics ?R)"
  have 1: "avgLength (metrics ?R) = (if ?n = 0 then Finite 0 else js_div ?s ?n)"
    by (rule avgLength_sum)
  have 2: "avgLength (metrics ?R) \<noteq> NaN"
    unfolding 1 by (simp add: js_div_not_NaN)
  have 3: "\<forall>q. avgLength (metrics ?R) = Finite q \<longrightarrow>
         \<bar>q - of_nat ?s / of_nat ?n\<bar>
         \<le> (if ?n = 0 then 0 else pow2 (max (binade ?s ?n) (- 1022) - 53))"
  proof (intro allI impI)
    fix q
    assume q: "avgLength (metrics ?R) = Finite q"
    show "\<bar>q - of_nat ?s / of_nat ?n\<bar>
         \<le> (if ?n = 0 then 0 else pow2 (max (binade ?s ?n) (- 1022) - 53))"
    proof (cases "?n = 0")
      case True
      with q 1 have "q = 0" by simp
      with True show ?thesis by simp
    next
      case False
      with q 1 have "js_div ?s ?n = Finite q" by simp
      from js_div_close [OF this False] False show ?thesis by simp
    qed
  qed
  have 4: "0 < a \<and> 0 < b \<longrightarrow>
         pow2 (binade a b) \<le> of_nat a / of_nat b \<and> of_nat a / of_nat b < pow2 (binade a b + 1)"
    using binade_bounds [of a b] by blast
  have 5: "items (fst (analyzeLinks [] \<lparr>assumeHttps = True, dedupe = True\<rparr> e)) = []"
    by (simp add: analyzeLinks_items unique_empty)
  have 6: "metrics (fst (analyzeLinks [] \<lparr>assumeHttps = True, dedupe = True\<rparr> e))
      = \<lparr> total = 0, valid = 0, invalid = 0, uniqueDomains = 0, withQuery = 0, withHash = 0,
            avgLength = Finite 0 \<rparr>"
    by (simp add: analyzeLinks_metrics unique_empty tally0_def)
  have 7: "distributions (fst (analyzeLinks [] \<lparr>assumeHttps = True, dedupe = True\<rparr> e))
       = \<lparr> protocolDist = [], domainDist = [], tldDist = [] \<rparr>"
    by (simp add: analyzeLinks_distributions unique_empty tally0_def)
  have 8: "avgLength (metrics (fst (analyzeLinks
         (''http://abc.def'' @ [LF] @ ''http://abcde.fgh'' @ [LF] @ ''https://example.com'')
         \<lparr>assumeHttps = False, dedupe = False\<rparr> e)))
       = Finite (4597424619607381 / 2 ^ 48)"
  proof -
    have rl: "map row_length (items (fst (analyzeLinks
         (''http://abc.def'' @ [LF] @ ''http://abcde.fgh'' @ [LF] @ ''https://example.com'')
         \<lparr>assumeHttps = False, dedupe = False\<rparr> e))) = [14, 16, 19]"
      by (simp only: analyzeLinks_items toRows_row_length unique_three_lines) simp
    have t: "total (metrics (fst (analyzeLinks
         (''http://abc.def'' @ [LF] @ ''http://abcde.fgh'' @ [LF] @ ''https://example.com'')
         \<lparr>assumeHttps = False, dedupe = False\<rparr> e))) = 3"
      by (simp only: analyzeLinks_metrics Let_def toRows_length unique_three_lines) simp
    have "avgLength (metrics (fst (analyzeLinks
         (''http://abc.def'' @ [LF] @ ''http://abcde.fgh'' @ [LF] @ ''https://example.com'')
         \<lparr>assumeHttps = False, dedupe = False\<rparr> e))) = js_div 49 3"
      by (simp only: avgLength_sum rl t) simp
    then show ?thesis by (simp only: js_div_49_3)
  qed
  from 6 have m0: "total (metrics (fst (analyzeLinks [] \<lparr>assumeHttps = True, dedupe = True\<rparr> e))) = 0"
    and m1: "avgLength (metrics (fst (analyzeLinks [] \<lparr>assumeHttps = True, dedupe = True\<rparr> e))) = Finite 0"
    by simp_all
  from 1 2 3 4 5 m0 m1 7 8 show ?thesis by (intro conjI)
qed

text \<open>Witness for claim C9: the three lines, of lengths 14, 16 and 19.\<close>

theorem avgLength_guarded_witness:
  "avgLength (metrics (fst (analyzeLinks
         (''http://abc.def'' @ [LF] @ ''http://abcde.fgh'' @ [LF] @ ''https://example.com'')
         \<lparr>assumeHttps = False, dedupe = False\<rparr> reference_env)))
       = Finite (4597424619607381 / 2 ^ 48)
   \<and> pow2 (binade 49 3) \<le> 49 / 3
   \<and> pow2 (binade 49 3) = 16"
proof -
  from avgLength_guarded [of "[]" "\<lparr>assumeHttps = False, dedupe = False\<rparr>" reference_env 49 3]
  have "avgLength (metrics (fst (analyzeLinks
         (''http://abc.def'' @ [LF] @ ''http://abcde.fgh'' @ [LF] @ ''https://example.com'')
         \<lparr>assumeHttps = False, dedupe = False\<rparr> reference_env)))
       = Finite (4597424619607381 / 2 ^ 48)"
    and "pow2 (binade 49 3) \<le> 49 / 3"
    by simp_all
  moreover have "pow2 (binade 49 3) = 16"
    by (simp add: binade_49_3 pow2_def)
  ultimately show ?thesis by simp
qed

section \<open>Top-level domains\<close>

lemma split_on_nonempty: "split_on c xs \<noteq> []"
  by (induction xs) (auto split: list.splits)

lemma split_on_append_sep: "split_on c (xs @ c # ys) = split_on c xs @ split_on c ys"
  by (induction xs) (auto split: list.splits simp: split_on_nonempty)

lemma split_on_label_tail:
  assumes "lbl \<noteq> []" "c \<notin> set lbl" "set dots \<subseteq> {c}"
  shows "filter (\<lambda>p. p \<noteq> []) (split_on c (lbl @ dots)) = [lbl]"
proof (cases dots)
  case Nil
  with assms show ?thesis by (simp add: split_on_no_sep)
next
  case (Cons d ds)
  with assms have d: "d = c" and ds: "set ds \<subseteq> {c}" by auto
  have "filter (\<lambda>p. p \<noteq> []) (split_on c ds) = []"
    using ds by (simp only: split_on_only_seps)
  with assms show ?thesis
    by (simp add: Cons d split_on_append_sep split_on_no_sep)
qed

lemma domainToTld_label:
  assumes "lbl \<noteq> []" "CHR ''.'' \<notin> set lbl" "set dots \<subseteq> {CHR ''.''}"
  shows "domainToTld (lbl @ dots) = Some (toLowerCase lbl)"
    and "domainToTld (pre @ ''.'' @ lbl @ dots) = Some (toLowerCase lbl)"
proof -
  note t = split_on_label_tail [OF assms]
  show "domainToTld (lbl @ dots) = Some (toLowerCase lbl)"
    by (simp add: domainToTld_def Let_def t)
  have "split_on CHR ''.'' (pre @ ''.'' @ lbl @ dots)
      = split_on CHR ''.'' pre @ split_on CHR ''.'' (lbl @ dots)"
    using split_on_append_sep [of "CHR ''.''" pre "lbl @ dots"] by simp
  then show "domainToTld (pre @ ''.'' @ lbl @ dots) = Some (toLowerCase lbl)"
    by (simp add: domainToTld_def Let_def t)
qed

lemma eval_tld_Example_COM: "domainToTld ''Example.COM'' = Some ''com''"
  by (simp add: domainToTld_def toLowerCase_def toLowerCase_unit_def upper_units_def
      lower_units_def Let_def)

lemma eval_tld_example_com: "domainToTld ''example.com'' = Some ''com''"
  by (simp add: domainToTld_def toLowerCase_def toLowerCase_unit_def upper_units_def
      lower_units_def Let_def)

text \<open>
  Claim C4, as amended: on every row \<open>tld\<close> is \<open>domainToTld\<close> of the row's domain, and
  \<open>domainToTld\<close> gives the last non-empty label between dots, in lower case: a domain
  that ends with a label \<open>lbl\<close> (no dot in it, not empty), with only dots after it and
  either nothing or a dot before it, has tld \<open>lbl\<close> in lower case. So \<open>tld\<close> is absent only
  when the domain is absent or has no character other than dots, and for a domain with
  no dot it is the whole domain in lower case. Under a URL constructor that conforms to
  the model, the input line \<open>nota-url\<close> with \<open>assumeHttps\<close> set gives a valid row with
  domain \<open>nota-url\<close> and tld \<open>nota-url\<close>, and \<open>https://www.Example.com/x\<close> gives domain
  \<open>example.com\<close> and tld \<open>com\<close>.
\<close>

theorem tld_is_last_label:
  "(\<forall>r \<in> set (items (fst (analyzeLinks inp options e))).
       tld r = (case domain r of None \<Rightarrow> None | Some d \<Rightarrow> domainToTld d))
   \<and> ((domainToTld d = None) = (set d \<subseteq> {CHR ''.''}))
   \<and> (d \<noteq> [] \<and> CHR ''.'' \<notin> set d \<longrightarrow> domainToTld d = Some (toLowerCase d))
   \<and> (lbl \<noteq> [] \<and> CHR ''.'' \<notin> set lbl \<and> set dots \<subseteq> {CHR ''.''} \<longrightarrow>
        domainToTld (lbl @ dots) = Some (toLowerCase lbl)
        \<and> domainToTld (pre @ ''.'' @ lbl @ dots) = Some (toLowerCase lbl))
   \<and> domainToTld ''Example.COM'' = Some ''com''
   \<and> (conforms (URL_new e) \<longrightarrow>
        map (\<lambda>r. (isValid r, domain r, tld r))
          (items (fst (analyzeLinks ''nota-url'' \<lparr>assumeHttps = True, dedupe = dd\<rparr> e)))
        = [(True, Some ''nota-url'', Some ''nota-url'')]
        \<and> map (\<lambda>r. (isValid r, domain r, tld r))
          (items (fst (analyzeLinks ''https://www.Example.com/x'' options e)))
        = [(True, Some ''example.com'', Some ''com'')])"
proof -
  have 1: "\<forall>r \<in> set (items (fst (analyzeLinks inp options e))).
       tld r = (case domain r of None \<Rightarrow> None | Some d \<Rightarrow> domainToTld d)"
  proof
    fix r
    assume "r \<in> set (items (fst (analyzeLinks inp options e)))"
    then have "r \<in> set (fst (toRows (unique inp options) e))"
      by (simp only: analyzeLinks_items)
    then obtain it e' where r: "r = fst (toRow it e')"
      using toRows_rows by blast
    show "tld r = (case domain r of None \<Rightarrow> None | Some d \<Rightarrow> domainToTld d)"
      unfolding r by (rule toRow_tld)
  qed
  have 2: "(domainToTld d = None) = (set d \<subseteq> {CHR ''.''})"
    by (rule domainToTld_None)
  have 3: "d \<noteq> [] \<and> CHR ''.'' \<notin> set d \<longrightarrow> domainToTld d = Some (toLowerCase d)"
    by (simp add: domainToTld_no_dot)
  have 4: "lbl \<noteq> [] \<and> CHR ''.'' \<notin> set lbl \<and> set dots \<subseteq> {CHR ''.''} \<longrightarrow>
        domainToTld (lbl @ dots) = Some (toLowerCase lbl)
        \<and> domainToTld (pre @ ''.'' @ lbl @ dots) = Some (toLowerCase lbl)"
    using domainToTld_label(1) [of lbl dots] domainToTld_label(2) [of lbl dots pre] by blast
  have 5: "domainToTld ''Example.COM'' = Some ''com''"
    by (rule eval_tld_Example_COM)
  have 6: "map (\<lambda>r. (isValid r, domain r, tld r))
          (items (fst (analyzeLinks ''nota-url'' \<lparr>assumeHttps = True, dedupe = dd\<rparr> e)))
        = [(True, Some ''nota-url'', Some ''nota-url'')]
        \<and> map (\<lambda>r. (isValid r, domain r, tld r))
          (items (fst (analyzeLinks ''https://www.Example.com/x'' options e)))
        = [(True, Some ''example.com'', Some ''com'')]" if c: "conforms (URL_new e)"
  proof -
    have n: "URL_new e ''https://nota-url'' = Inr \<lparr>url_protocol = ''https:'',
        url_hostname = ''nota-url'', url_pathname = ''/'', url_searchParams_keys = [],
        url_hash = []\<rparr>"
      using c URL_model_nota_url by (rule conformsD)
    have w: "URL_new e ''https://www.Example.com/x'' = Inr \<lparr>url_protocol = ''https:'',
        url_hostname = ''www.example.com'', url_pathname = ''/x'', url_searchParams_keys = [],
        url_hash = []\<rparr>"
      using c URL_model_www_Example by (rule conformsD)
    show ?thesis
      by (simp add: analyzeLinks_single [OF unique_nota_url] analyzeLinks_single [OF unique_www_Example]
          toRow_valid [OF n] toRow_valid [OF w] eval_nota_url eval_www_example eval_tld_example_com)
  qed
  from 1 2 3 4 5 6 show ?thesis by blast
qed

text \<open>
  Witness for claim C4: the lines \<open>nota-url\<close> and \<open>https://www.Example.com/x\<close> in the
  reference environment, and the domain \<open>www.example.com.\<close> with its last label \<open>com\<close>.
\<close>

theorem tld_is_last_label_witness:
  "conforms (URL_new reference_env)
   \<and> map tld (items (fst (analyzeLinks ''nota-url'' \<lparr>assumeHttps = True, dedupe = True\<rparr> reference_env)))
       = [Some ''nota-url'']
   \<and> map tld (items (fst (analyzeLinks ''https://www.Example.com/x''
        \<lparr>assumeHttps = True, dedupe = True\<rparr> reference_env))) = [Some ''com'']
   \<and> domainToTld (''www.example'' @ ''.'' @ ''com'' @ ''.'') = Some (toLowerCase ''com'')"
proof -
  have c: "conforms (URL_new reference_env)" by (rule conforms_reference_env)
  have l: "''com'' \<noteq> [] \<and> CHR ''.'' \<notin> set ''com'' \<and> set ''.'' \<subseteq> {CHR ''.''}" by simp
  from tld_is_last_label [of "''nota-url''" "\<lparr>assumeHttps = True, dedupe = True\<rparr>"
      reference_env "''nota-url''" "''com''" "''.''" "''www.example''" True] c l
  have "map (\<lambda>r. (isValid r, domain r, tld r))
          (items (fst (analyzeLinks ''nota-url'' \<lparr>assumeHttps = True, dedupe = True\<rparr> reference_env)))
        = [(True, Some ''nota-url'', Some ''nota-url'')]"
    and "map (\<lambda>r. (isValid r, domain r, tld r))
          (items (fst (analyzeLinks ''https://www.Example.com/x''
            \<lparr>assumeHttps = True, dedupe = True\<rparr> reference_env)))
        = [(True, Some ''example.com'', Some ''com'')]"
    and "domainToTld (''www.example'' @ ''.'' @ ''com'' @ ''.'') = Some (toLowerCase ''com'')"
    by blast+
  with c show ?thesis by auto
qed

section \<open>Row shape\<close>

lemma toRow_normalized: "normalized (fst (toRow it e)) = snd it"
  by (simp add: toRow_def safeId_def Let_def split: sum.splits)

lemma toRow_by_url:
  "(case URL_new e (snd it) of
      Inl err \<Rightarrow> \<not> isValid (fst (toRow it e)) \<and> error (fst (toRow it e)) \<noteq> None
    | Inr u \<Rightarrow>
        isValid (fst (toRow it e))
        \<and> protocol (fst (toRow it e)) = Some (remove1 CHR '':'' (url_protocol u))
        \<and> pathname (fst (toRow it e)) = Some (url_pathname u)
        \<and> hostname (fst (toRow it e))
            = (if url_hostname u = [] then None else Some (url_hostname u))
        \<and> domain (fst (toRow it e))
            = (if url_hostname u = [] then None else Some (hostnameToDomain (url_hostname u))))"
  by (cases "URL_new e (snd it)")
     (simp_all add: toRow_def safeId_def Let_def hostnameToDomain_nonempty)

lemma toRow_tld_present:
  "(tld (fst (toRow it e)) \<noteq> None)
     = (\<exists>d. domain (fst (toRow it e)) = Some d \<and> \<not> set d \<subseteq> {CHR ''.''})"
proof (cases "domain (fst (toRow it e))")
  case None
  then show ?thesis by (simp add: toRow_tld)
next
  case (Some d)
  then show ?thesis using domainToTld_None [of d] by (simp add: toRow_tld)
qed

text \<open>
  Claim C5, as amended: every row is either valid or invalid, by what the URL
  constructor does on \<open>normalized\<close>. When it throws, the row is invalid: \<open>error\<close> is
  present and none of the five success fields is. When it returns a URL, the row is
  valid: \<open>error\<close> is absent, \<open>protocol\<close> (the URL's protocol without its colon) and
  \<open>pathname\<close> are present, \<open>hostname\<close> and \<open>domain\<close> are present exactly when the URL's
  hostname is not empty (they are that hostname, and \<open>hostnameToDomain\<close> of it), and
  \<open>tld\<close> is present exactly when \<open>domain\<close> is present and has a character other than a
  dot. So all five success fields are present on a valid row unless the URL has no host
  or its domain is made of dots only. \<open>raw\<close>, \<open>normalized\<close> and \<open>length\<close> are fields of every
  row, and \<open>length\<close> is the length of \<open>normalized\<close>.
\<close>

theorem row_shape:
  "\<forall>r \<in> set (items (fst (analyzeLinks inp options e))).
     (isValid r \<longleftrightarrow> error r = None)
   \<and> (isValid r \<longrightarrow>
         protocol r \<noteq> None \<and> pathname r \<noteq> None
         \<and> (domain r \<noteq> None \<longleftrightarrow> hostname r \<noteq> None)
         \<and> (tld r \<noteq> None \<longrightarrow> domain r \<noteq> None))
   \<and> (\<not> isValid r \<longrightarrow>
         protocol r = None \<and> hostname r = None \<and> domain r = None \<and> tld r = None
         \<and> pathname r = None)
   \<and> (case URL_new e (normalized r) of
         Inl err \<Rightarrow> \<not> isValid r \<and> error r \<noteq> None
       | Inr u \<Rightarrow>
           isValid r
           \<and> protocol r = Some (remove1 CHR '':'' (url_protocol u))
           \<and> pathname r = Some (url_pathname u)
           \<and> hostname r = (if url_hostname u = [] then None else Some (url_hostname u))
           \<and> domain r = (if url_hostname u = [] then None
                         else Some (hostnameToDomain (url_hostname u))))
   \<and> ((tld r \<noteq> None) = (\<exists>d. domain r = Some d \<and> \<not> set d \<subseteq> {CHR ''.''}))
   \<and> row_length r = length (normalized r)"
proof
  fix r
  assume "r \<in> set (items (fst (analyzeLinks inp options e)))"
  then have "r \<in> set (fst (toRows (unique inp options) e))"
    by (simp only: analyzeLinks_items)
  then obtain it e' where u: "URL_new e' = URL_new e" and r: "r = fst (toRow it e')"
    using toRows_rows by blast
  have n: "URL_new e (normalized (fst (toRow it e'))) = URL_new e' (snd it)"
    by (simp only: toRow_normalized u)
  show "(isValid r \<longleftrightarrow> error r = None)
   \<and> (isValid r \<longrightarrow>
         protocol r \<noteq> None \<and> pathname r \<noteq> None
         \<and> (domain r \<noteq> None \<longleftrightarrow> hostname r \<noteq> None)
         \<and> (tld r \<noteq> None \<longrightarrow> domain r \<noteq> None))
   \<and> (\<not> isValid r \<longrightarrow>
         protocol r = None \<and> hostname r = None \<and> domain r = None \<and> tld r = None
         \<and> pathname r = None)
   \<and> (case URL_new e (normalized r) of
         Inl err \<Rightarrow> \<not> isValid r \<and> error r \<noteq> None
       | Inr u \<Rightarrow>
           isValid r
           \<and> protocol r = Some (remove1 CHR '':'' (url_protocol u))
           \<and> pathname r = Some (url_pathname u)
           \<and> hostname r = (if url_hostname u = [] then None else Some (url_hostname u))
           \<and> domain r = (if url_hostname u = [] then None
                         else Some (hostnameToDomain (url_hostname u))))
   \<and> ((tld r \<noteq> None) = (\<exists>d. domain r = Some d \<and> \<not> set d \<subseteq> {CHR ''.''}))
   \<and> row_length r = length (normalized r)"
    unfolding r n
    using toRow_shape [where it = it and e = e'] toRow_by_url [where it = it and e = e']
      toRow_tld_present [where it = it and e = e']
    by (intro conjI) blast+
qed

text \<open>Witness for claim C5: the row of the line \<open>mailto:x\<close>.\<close>

theorem row_shape_witness:
  "fst (toRow (''mailto:x'', ''mailto:x'') reference_env)
     \<in> set (items (fst (analyzeLinks ''mailto:x'' \<lparr>assumeHttps = True, dedupe = True\<rparr> reference_env)))
   \<and> isValid (fst (toRow (''mailto:x'', ''mailto:x'') reference_env))
   \<and> error (fst (toRow (''mailto:x'', ''mailto:x'') reference_env)) = None
   \<and> protocol (fst (toRow (''mailto:x'', ''mailto:x'') reference_env)) = Some ''mailto''
   \<and> hostname (fst (toRow (''mailto:x'', ''mailto:x'') reference_env)) = None
   \<and> row_length (fst (toRow (''mailto:x'', ''mailto:x'') reference_env)) = 8"
proof -
  let ?r = "fst (toRow (''mailto:x'', ''mailto:x'') reference_env)"
  have m: "?r \<in> set (items (fst (analyzeLinks ''mailto:x''
      \<lparr>assumeHttps = True, dedupe = True\<rparr> reference_env)))"
    by (simp add: analyzeLinks_single [OF unique_mailto])
  have u: "URL_new reference_env ''mailto:x'' = Inr \<lparr>url_protocol = ''mailto:'',
      url_hostname = [], url_pathname = ''x'', url_searchParams_keys = [], url_hash = []\<rparr>"
    using conforms_reference_env URL_model_mailto by (rule conformsD)
  have n: "normalized ?r = ''mailto:x''" by (simp add: toRow_normalized)
  from row_shape [of "''mailto:x''" "\<lparr>assumeHttps = True, dedupe = True\<rparr>" reference_env] m
  have a: "isValid ?r \<longleftrightarrow> error ?r = None"
    and b: "case URL_new reference_env (normalized ?r) of
         Inl err \<Rightarrow> \<not> isValid ?r \<and> error ?r \<noteq> None
       | Inr u \<Rightarrow>
           isValid ?r
           \<and> protocol ?r = Some (remove1 CHR '':'' (url_protocol u))
           \<and> pathname ?r = Some (url_pathname u)
           \<and> hostname ?r = (if url_hostname u = [] then None else Some (url_hostname u))
           \<and> domain ?r = (if url_hostname u = [] then None
                         else Some (hostnameToDomain (url_hostname u)))"
    and c: "row_length ?r = length (normalized ?r)"
    by blast+
  from b have b': "isValid ?r \<and> protocol ?r = Some ''mailto'' \<and> hostname ?r = None"
    by (simp add: n u)
  from a b' have a': "error ?r = None" by blast
  from c have c': "row_length ?r = 8" by (simp add: n)
  from m a' b' c' show ?thesis by blast
qed

section \<open>Keys of the domain distribution\<close>

lemma set_own_key_set: "fst ` set (set_own k v m) = insert k (fst ` set m)"
  by (induction m) auto

lemma inc_keys:
  "fst ` set (inc m k) =
     (if k = ''__proto__'' \<and> k \<notin> fst ` set m then fst ` set m else insert k (fst ` set m))"
proof (cases "map_of m k")
  case None
  then have "k \<notin> fst ` set m" by (simp add: map_of_eq_None_iff)
  with None show ?thesis by (simp add: inc_def set_own_key_set)
next
  case (Some v)
  then have "(k, v) \<in> set m" by (rule map_of_SomeD)
  then have "k \<in> fst ` set m" by force
  with Some show ?thesis
    by (cases v) (simp_all add: inc_def set_own_key_set insert_absorb)
qed

lemma tally_step_domain_keys:
  "fst ` set (t_domainDist (tally_step t r)) =
     (if truthy (domain r)
      then fst ` set (inc (t_domainDist t) (toLowerCase (the (domain r))))
      else fst ` set (t_domainDist t))"
  by (simp add: tally_step_def)

lemma tally_domain_keys:
  "''__proto__'' \<notin> fst ` set (t_domainDist t) \<Longrightarrow>
   fst ` set (t_domainDist (foldl tally_step t its))
     = fst ` set (t_domainDist t)
       \<union> ((\<lambda>r. toLowerCase (the (domain r))) ` {r \<in> set its. truthy (domain r)}
          - {''__proto__''})"
proof (induction its arbitrary: t)
  case Nil
  show ?case by simp
next
  case (Cons r its)
  let ?k = "toLowerCase (the (domain r))"
  let ?t = "tally_step t r"
  have keys: "fst ` set (t_domainDist ?t) =
      (if truthy (domain r) \<and> ?k \<noteq> ''__proto__'' then insert ?k (fst ` set (t_domainDist t))
       else fst ` set (t_domainDist t))"
    using Cons.prems by (auto simp: tally_step_domain_keys inc_keys)
  then have "''__proto__'' \<notin> fst ` set (t_domainDist ?t)"
    using Cons.prems by (simp split: if_splits)
  from Cons.IH [OF this]
  have "fst ` set (t_domainDist (foldl tally_step t (r # its)))
      = fst ` set (t_domainDist ?t)
        \<union> ((\<lambda>r. toLowerCase (the (domain r))) ` {r \<in> set its. truthy (domain r)}
           - {''__proto__''})"
    by simp
  also have "\<dots> = fst ` set (t_domainDist t)
       \<union> ((\<lambda>r. toLowerCase (the (domain r))) ` {x \<in> set (r # its). truthy (domain x)}
          - {''__proto__''})"
    unfolding keys by auto
  finally show ?case .
qed

lemma toRow_domain_nonempty: "domain (fst (toRow it e)) \<noteq> Some []"
  by (cases "URL_new e (snd it)")
     (simp_all add: toRow_def safeId_def Let_def hostnameToDomain_nonempty)

lemma analyzeLinks_domain_keys:
  "fst ` set (domainDist (distributions (fst (analyzeLinks inp options e))))
     = toLowerCase ` {d. \<exists>r \<in> set (items (fst (analyzeLinks inp options e))). domain r = Some d}
       - {''__proto__''}"
proof -
  let ?its = "fst (toRows (unique inp options) e)"
  have ne: "domain r \<noteq> Some []" if "r \<in> set ?its" for r
  proof -
    from that obtain it e' where "r = fst (toRow it e')" using toRows_rows by blast
    then show ?thesis by (simp add: toRow_domain_nonempty)
  qed
  have "(\<lambda>r. toLowerCase (the (domain r))) ` {r \<in> set ?its. truthy (domain r)}
      = toLowerCase ` {d. \<exists>r \<in> set ?its. domain r = Some d}"
  proof (intro equalityI subsetI)
    fix k
    assume "k \<in> (\<lambda>r. toLowerCase (the (domain r))) ` {r \<in> set ?its. truthy (domain r)}"
    then obtain r where r: "r \<in> set ?its" "truthy (domain r)" "k = toLowerCase (the (domain r))"
      by blast
    from r(2) obtain d where "domain r = Some d" by (auto simp: truthy_def split: option.splits)
    with r show "k \<in> toLowerCase ` {d. \<exists>r \<in> set ?its. domain r = Some d}" by auto
  next
    fix k
    assume "k \<in> toLowerCase ` {d. \<exists>r \<in> set ?its. domain r = Some d}"
    then obtain d r where d: "k = toLowerCase d" "r \<in> set ?its" "domain r = Some d" by blast
    from ne [OF d(2)] d(3) have "truthy (domain r)" by (simp add: truthy_def)
    with d show "k \<in> (\<lambda>r. toLowerCase (the (domain r))) ` {r \<in> set ?its. truthy (domain r)}"
      by force
  qed
  moreover have "fst ` set (t_domainDist (foldl tally_step tally0 ?its))
      = (\<lambda>r. toLowerCase (the (domain r))) ` {r \<in> set ?its. truthy (domain r)} - {''__proto__''}"
    using tally_domain_keys [of tally0 ?its] by (simp add: tally0_def)
  ultimately show ?thesis
    by (simp only: analyzeLinks_distributions analyzeLinks_items Let_def Distributions.simps)
qed

text \<open>
  Claim C7, as amended: for the normalized string \<open>https://www.Example.com/x\<close>, under a
  URL constructor that conforms to the model, the parser has already lower-cased the
  host: the row has hostname \<open>www.example.com\<close> and domain \<open>example.com\<close>, and the key
  of the domain distribution is \<open>example.com\<close>. Under a constructor that returns the
  hostname \<open>WWW.Example.com\<close> for it, the row has domain \<open>Example.com\<close> and the key of
  the domain distribution is still \<open>example.com\<close>: \<open>hostnameToDomain\<close> removes only a
  leading \<open>www.\<close>, matched without regard to case and only when something is left, and
  keeps the case of the rest. For every input, the keys of the domain distribution are
  the lower-cased domains of the rows (but for \<open>__proto__\<close>, which an assignment to a
  plain object does not create).
\<close>

theorem www_prefix_stripped:
  "(conforms (URL_new e) \<longrightarrow>
      map (\<lambda>r. (hostname r, domain r))
        (items (fst (analyzeLinks ''https://www.Example.com/x'' options e)))
        = [(Some ''www.example.com'', Some ''example.com'')]
      \<and> domainDist (distributions (fst (analyzeLinks ''https://www.Example.com/x'' options e)))
        = [(''example.com'', Count 1)])
   \<and> (URL_new e ''https://www.Example.com/x'' = Inr u \<and> url_hostname u = ''WWW.Example.com'' \<longrightarrow>
      map (\<lambda>r. (hostname r, domain r))
        (items (fst (analyzeLinks ''https://www.Example.com/x'' options e)))
        = [(Some ''WWW.Example.com'', Some ''Example.com'')]
      \<and> domainDist (distributions (fst (analyzeLinks ''https://www.Example.com/x'' options e)))
        = [(''example.com'', Count 1)])
   \<and> fst ` set (domainDist (distributions (fst (analyzeLinks inp options e))))
       = toLowerCase ` {d. \<exists>r \<in> set (items (fst (analyzeLinks inp options e))). domain r = Some d}
         - {''__proto__''}
   \<and> hostnameToDomain h
       = (if toLowerCase (take 4 h) = ''www.'' \<and> 4 < length h then drop 4 h else h)
   \<and> hostnameToDomain ''WWW.Example.com'' = ''Example.com''
   \<and> toLowerCase ''Example.com'' = ''example.com''"
proof -
  let ?n = "''https://www.Example.com/x''"
  have i: "items (fst (analyzeLinks ?n options e)) = [fst (toRow (?n, ?n) e)]"
    by (rule analyzeLinks_single [OF unique_www_Example])
  have k: "''example.com'' \<notin> set Object_prototype_keys"
    by (simp add: Object_prototype_keys_def)
  have dist: "domainDist (distributions (fst (analyzeLinks ?n options e)))
        = [(''example.com'', Count 1)]"
    if d: "domain (fst (toRow (?n, ?n) e)) = Some dm" and l: "toLowerCase dm = ''example.com''"
      and ne: "dm \<noteq> []" for dm
  proof -
    have "t_domainDist (tally_step tally0 (fst (toRow (?n, ?n) e))) = [(''example.com'', Count 1)]"
      using k ne by (simp add: tally_step_def tally0_def truthy_def d l inc_fresh)
    then show ?thesis
      using i by (simp add: analyzeLinks_distributions analyzeLinks_items [symmetric] Let_def)
  qed
  have 1: "map (\<lambda>r. (hostname r, domain r)) (items (fst (analyzeLinks ?n options e)))
        = [(Some ''www.example.com'', Some ''example.com'')]
      \<and> domainDist (distributions (fst (analyzeLinks ?n options e)))
        = [(''example.com'', Count 1)]" if c: "conforms (URL_new e)"
  proof -
    have u: "URL_new e ?n = Inr \<lparr>url_protocol = ''https:'',
        url_hostname = ''www.example.com'', url_pathname = ''/x'', url_searchParams_keys = [],
        url_hash = []\<rparr>"
      using c URL_model_www_Example by (rule conformsD)
    have d: "domain (fst (toRow (?n, ?n) e)) = Some ''example.com''"
      by (simp add: toRow_valid [OF u] eval_www_example)
    have "map (\<lambda>r. (hostname r, domain r)) (items (fst (analyzeLinks ?n options e)))
        = [(Some ''www.example.com'', Some ''example.com'')]"
      by (simp add: i toRow_valid [OF u] eval_www_example)
    with dist [OF d eval_www_example(3)] show ?thesis by simp
  qed
  have 2: "map (\<lambda>r. (hostname r, domain r)) (items (fst (analyzeLinks ?n options e)))
        = [(Some ''WWW.Example.com'', Some ''Example.com'')]
      \<and> domainDist (distributions (fst (analyzeLinks ?n options e)))
        = [(''example.com'', Count 1)]"
    if u: "URL_new e ?n = Inr u" and h: "url_hostname u = ''WWW.Example.com''"
  proof -
    have d: "domain (fst (toRow (?n, ?n) e)) = Some ''Example.com''"
      by (simp add: toRow_valid [OF u] h eval_www_example)
    have "map (\<lambda>r. (hostname r, domain r)) (items (fst (analyzeLinks ?n options e)))
        = [(Some ''WWW.Example.com'', Some ''Example.com'')]"
      by (simp add: i toRow_valid [OF u] h eval_www_example)
    with dist [OF d eval_www_example(4)] show ?thesis by simp
  qed
  have 3: "fst ` set (domainDist (distributions (fst (analyzeLinks inp options e))))
       = toLowerCase ` {d. \<exists>r \<in> set (items (fst (analyzeLinks inp options e))). domain r = Some d}
         - {''__proto__''}"
    by (rule analyzeLinks_domain_keys)
  have 4: "hostnameToDomain h
       = (if toLowerCase (take 4 h) = ''www.'' \<and> 4 < length h then drop 4 h else h)"
    by (rule hostnameToDomain_alt)
  from 1 2 3 4 eval_www_example(2,4) show ?thesis by blast
qed

text \<open>
  Witness for claim C7: the run in the reference environment, and the run under a
  constructor that keeps the case of the host.
\<close>

theorem www_prefix_stripped_witness:
  "conforms (URL_new reference_env)
   \<and> map domain (items (fst (analyzeLinks ''https://www.Example.com/x''
        \<lparr>assumeHttps = True, dedupe = True\<rparr> reference_env))) = [Some ''example.com'']
   \<and> map fst (domainDist (distributions (fst (analyzeLinks ''https://www.Example.com/x''
        \<lparr>assumeHttps = True, dedupe = True\<rparr> reference_env)))) = [''example.com'']
   \<and> map domain (items (fst (analyzeLinks ''https://www.Example.com/x''
        \<lparr>assumeHttps = True, dedupe = True\<rparr>
        (reference_env\<lparr>URL_new := \<lambda>s. Inr \<lparr>url_protocol = ''https:'',
           url_hostname = ''WWW.Example.com'', url_pathname = ''/x'',
           url_searchParams_keys = [], url_hash = []\<rparr>\<rparr>)))) = [Some ''Example.com'']
   \<and> map fst (domainDist (distributions (fst (analyzeLinks ''https://www.Example.com/x''
        \<lparr>assumeHttps = True, dedupe = True\<rparr>
        (reference_env\<lparr>URL_new := \<lambda>s. Inr \<lparr>url_protocol = ''https:'',
           url_hostname = ''WWW.Example.com'', url_pathname = ''/x'',
           url_searchParams_keys = [], url_hash = []\<rparr>\<rparr>))))) = [''example.com'']"
proof -
  let ?u = "\<lparr>url_protocol = ''https:'', url_hostname = ''WWW.Example.com'', url_pathname = ''/x'',
      url_searchParams_keys = [], url_hash = []\<rparr>"
  let ?e = "reference_env\<lparr>URL_new := \<lambda>s. Inr ?u\<rparr>"
  have c: "conforms (URL_new reference_env)" by (rule conforms_reference_env)
  from www_prefix_stripped [of reference_env "\<lparr>assumeHttps = True, dedupe = True\<rparr>"] c
  have a: "map (\<lambda>r. (hostname r, domain r))
        (items (fst (analyzeLinks ''https://www.Example.com/x''
          \<lparr>assumeHttps = True, dedupe = True\<rparr> reference_env)))
        = [(Some ''www.example.com'', Some ''example.com'')]"
    and b: "domainDist (distributions (fst (analyzeLinks ''https://www.Example.com/x''
          \<lparr>assumeHttps = True, dedupe = True\<rparr> reference_env)))
        = [(''example.com'', Count 1)]"
    by blast+
  have h: "URL_new ?e ''https://www.Example.com/x'' = Inr ?u \<and> url_hostname ?u = ''WWW.Example.com''"
    by simp
  from www_prefix_stripped [of ?e "\<lparr>assumeHttps = True, dedupe = True\<rparr>" ?u] h
  have a': "map (\<lambda>r. (hostname r, domain r))
        (items (fst (analyzeLinks ''https://www.Example.com/x''
          \<lparr>assumeHttps = True, dedupe = True\<rparr> ?e)))
        = [(Some ''WWW.Example.com'', Some ''Example.com'')]"
    and b': "domainDist (distributions (fst (analyzeLinks ''https://www.Example.com/x''
          \<lparr>assumeHttps = True, dedupe = True\<rparr> ?e)))
        = [(''example.com'', Count 1)]"
    by blast+
  from a have a2: "map domain (items (fst (analyzeLinks ''https://www.Example.com/x''
        \<lparr>assumeHttps = True, dedupe = True\<rparr> reference_env))) = [Some ''example.com'']"
    by auto
  from a' have a2': "map domain (items (fst (analyzeLinks ''https://www.Example.com/x''
        \<lparr>assumeHttps = True, dedupe = True\<rparr> ?e))) = [Some ''Example.com'']"
    by auto
  from c a2 b a2' b' show ?thesis by simp
qed

end
